theory Spec2Isabelle
  imports Complex_Main
begin

section \<open>Conventions\<close>

text \<open>
  The C type \<^verbatim>\<open>double\<close> is modelled by \<^typ>\<open>real\<close>: every statement below is
  about the arithmetic the code denotes over the reals, without rounding, overflow,
  infinities or NaN. C \<^verbatim>\<open>int\<close> values (loop counters, table indices, flags) are
  \<^typ>\<open>int\<close> or \<^typ>\<open>nat\<close>; none of them comes near the 32-bit range.
  Arrays are lists; a \<^verbatim>\<open>for (i=0; i<n; i++)\<close> loop is a fold or a map over
  \<open>[0..<n]\<close>. A call of \<^verbatim>\<open>exit\<close> is an error value.
\<close>

section \<open>BS: constants and data\<close>

text \<open>The macros \<^verbatim>\<open>MAX(a, b) ((a) > (b) ? (a) : (b))\<close> and
  \<^verbatim>\<open>MIN(a, b) ((a) < (b) ? (a) : (b))\<close> of \<^verbatim>\<open>integrator_bs.c\<close>.\<close>

definition MAX_macro :: "'a::linorder \<Rightarrow> 'a \<Rightarrow> 'a" where
  "MAX_macro a b = (if a > b then a else b)"

definition MIN_bs :: "'a::linorder \<Rightarrow> 'a \<Rightarrow> 'a" where
  "MIN_bs a b = (if a < b then a else b)"

definition maxOrder :: nat where "maxOrder = 18"
definition sequence_length :: nat where "sequence_length = maxOrder div 2"
definition stepControl1 :: real where "stepControl1 = 0.65"
definition stepControl2 :: real where "stepControl2 = 0.94"
definition stepControl3 :: real where "stepControl3 = 0.02"
definition stepControl4 :: real where "stepControl4 = 4.0"
definition orderControl1 :: real where "orderControl1 = 0.8"
definition orderControl2 :: real where "orderControl2 = 0.9"
definition stabilityReduction :: real where "stabilityReduction = 0.5"
definition maxIter :: int where "maxIter = 2"
definition maxChecks :: int where "maxChecks = 1"

text \<open>
  \<^verbatim>\<open>struct reb_ode_state\<close>. Every field carries the prefix \<open>ode_\<close> (\<open>ode_y\<close> is \<^verbatim>\<open>y\<close>,
  \<open>ode_D\<close> is \<^verbatim>\<open>D\<close>, ...). The two callbacks are pure functions, as the interface
  requires: \<open>derivatives y t i\<close> is the value that \<^verbatim>\<open>derivatives(state, yDot, y, t)\<close> writes
  to \<^verbatim>\<open>yDot[i]\<close>, and \<open>g ya yb i\<close> the value that \<^verbatim>\<open>getscale(state, ya, yb)\<close> writes to
  \<^verbatim>\<open>scale[i]\<close>; \<open>None\<close> is the null pointer. Every buffer has \<open>ode_length\<close> entries and
  \<open>ode_D\<close> has \<open>sequence_length\<close> rows, as \<^verbatim>\<open>reb_integrator_bs_add_ode\<close> allocates them.
\<close>

record reb_ode_state =
  ode_length :: nat
  ode_y :: "real list"
  ode_y1 :: "real list"
  ode_y0Dot :: "real list"
  ode_yDot :: "real list"
  ode_yTmp :: "real list"
  ode_C :: "real list"
  ode_scale :: "real list"
  ode_D :: "real list list"
  derivatives :: "real list \<Rightarrow> real \<Rightarrow> nat \<Rightarrow> real"
  getscale :: "(real list \<Rightarrow> real list \<Rightarrow> nat \<Rightarrow> real) option"

text \<open>\<^verbatim>\<open>struct reb_simulation_integrator_bs\<close>; \<^verbatim>\<open>N\<close> is the length of \<open>states\<close>, and
  \<open>method_bs\<close> is the field \<^verbatim>\<open>method\<close>.\<close>

record reb_simulation_integrator_bs =
  states :: "reb_ode_state list"
  sequence :: "int list"
  costPerStep :: "int list"
  coeff :: "real list"
  costPerTimeUnit :: "real list"
  optimalStep :: "real list"
  scalAbsoluteTolerance :: real
  scalRelativeTolerance :: real
  minStep :: real
  maxStep :: real
  dt_proposed :: real
  method_bs :: int
  targetIter :: int
  previousRejected :: int
  firstOrLastStep :: int

text \<open>The ways in which the code leaves \<^verbatim>\<open>reb_integrator_bs_step\<close> without returning:
  the four calls of \<^verbatim>\<open>exit\<close>, and an access outside an array (undefined behaviour in C).\<close>

datatype bs_error =
    MethodUnsupported         \<comment> \<open>\<^verbatim>\<open>Error. method not implemented in BS\<close>\<close>
  | NaNDetected               \<comment> \<open>\<^verbatim>\<open>Error. NaN appearing during integration.\<close>\<close>
  | MinStepHit                \<comment> \<open>\<^verbatim>\<open>Error. Minimal stepsize reached during integration.\<close>\<close>
  | MaxStepHit                \<comment> \<open>\<^verbatim>\<open>Error. Maximum stepsize reached during integration.\<close>\<close>
  | SequenceIndexOutOfBounds  \<comment> \<open>an index outside \<open>[0, sequence_length)\<close>\<close>
  | StateIndexOutOfBounds     \<comment> \<open>leapfrog reads \<^verbatim>\<open>y[i+3]\<close> beyond the state vector\<close>

section \<open>BS: sub-step engines\<close>

text \<open>The loops \<^verbatim>\<open>for s: states[s].derivatives(&states[s], states[s].yDot, states[s].y1, t)\<close>.\<close>

definition eval_derivatives :: "real \<Rightarrow> reb_ode_state list \<Rightarrow> reb_ode_state list" where
  "eval_derivatives t sts =
     map (\<lambda>s. s\<lparr>ode_yDot := map (derivatives s (ode_y1 s) t) [0..<ode_length s]\<rparr>) sts"

subsection \<open>Modified midpoint\<close>

text \<open>The first sub-step: \<^verbatim>\<open>y1 = y + subStep*y0Dot\<close>, the derivative at \<^verbatim>\<open>y1\<close>, and
  \<^verbatim>\<open>yTmp = y\<close>.\<close>

definition midpoint_first :: "real \<Rightarrow> real \<Rightarrow> reb_ode_state list \<Rightarrow> reb_ode_state list" where
  "midpoint_first subStep t sts =
    (let sts1 = map (\<lambda>s. s\<lparr>ode_y1 := map (\<lambda>i. ode_y s ! i + subStep * ode_y0Dot s ! i)
                                         [0..<ode_length s]\<rparr>) sts;
         sts2 = eval_derivatives t sts1
     in map (\<lambda>s. s\<lparr>ode_yTmp := map (\<lambda>i. ode_y s ! i) [0..<ode_length s]\<rparr>) sts2)"

text \<open>One pass of the loop over \<open>j\<close> up to the stability check: advance \<open>t\<close>, the
  midpoint update (\<^verbatim>\<open>middle = y1; y1 = yTmp + 2*subStep*yDot; yTmp = middle\<close>), and the
  derivative at the new \<^verbatim>\<open>y1\<close>.\<close>

definition midpoint_body :: "real \<Rightarrow> real \<times> reb_ode_state list \<Rightarrow> real \<times> reb_ode_state list" where
  "midpoint_body subStep = (\<lambda>(t, sts).
    (let t' = t + subStep;
         sts1 = map (\<lambda>s. s\<lparr>ode_y1 := map (\<lambda>i. ode_yTmp s ! i + 2 * subStep * ode_yDot s ! i)
                                         [0..<ode_length s],
                          ode_yTmp := map (\<lambda>i. ode_y1 s ! i) [0..<ode_length s]\<rparr>) sts
     in (t', eval_derivatives t' sts1)))"

text \<open>The two norms of the stability check, accumulated over all states and components
  in the order of the source.\<close>

definition initialNorm :: "reb_ode_state list \<Rightarrow> real" where
  "initialNorm sts =
     fold (\<lambda>s norm. fold (\<lambda>l norm. let ratio = ode_y0Dot s ! l / ode_scale s ! l
                                    in norm + ratio * ratio) [0..<ode_length s] norm) sts 0"

definition deltaNorm :: "reb_ode_state list \<Rightarrow> real" where
  "deltaNorm sts =
     fold (\<lambda>s norm. fold (\<lambda>l norm. let ratio = (ode_yDot s ! l - ode_y0Dot s ! l) / ode_scale s ! l
                                    in norm + ratio * ratio) [0..<ode_length s] norm) sts 0"

definition unstable :: "reb_ode_state list \<Rightarrow> bool" where
  "unstable sts \<longleftrightarrow> deltaNorm sts > 4 * MAX_macro (1 / 10 ^ 15) (initialNorm sts)"

text \<open>The loop \<^verbatim>\<open>for (j = 1; j < n; ++j)\<close>; the result is \<open>False\<close> when the stability
  check made the function return 0.\<close>

fun midpoint_loop ::
  "int \<Rightarrow> real \<Rightarrow> nat list \<Rightarrow> real \<times> reb_ode_state list \<Rightarrow> bool \<times> reb_ode_state list" where
  "midpoint_loop k subStep [] st = (True, snd st)"
| "midpoint_loop k subStep (j # js) st =
    (let st' = midpoint_body subStep st
     in if int j \<le> maxChecks \<and> k < maxIter \<and> unstable (snd st') then (False, snd st')
        else midpoint_loop k subStep js st')"

text \<open>The correction of the last sub-step.\<close>

definition midpoint_last :: "real \<Rightarrow> reb_ode_state list \<Rightarrow> reb_ode_state list" where
  "midpoint_last subStep sts =
     map (\<lambda>s. s\<lparr>ode_y1 := map (\<lambda>i. 0.5 * (ode_yTmp s ! i + ode_y1 s ! i + subStep * ode_yDot s ! i))
                              [0..<ode_length s]\<rparr>) sts"

text \<open>The states in the \<open>j\<close>-th pass of the loop, at the place of the stability check
  (\<open>j = 0\<close>: before the loop), and the two norms as sums over all states and components.\<close>

definition midpoint_state :: "real \<Rightarrow> real \<Rightarrow> reb_ode_state list \<Rightarrow> nat \<Rightarrow> reb_ode_state list" where
  "midpoint_state subStep t0 sts j =
     snd ((midpoint_body subStep ^^ j) (t0 + subStep, midpoint_first subStep (t0 + subStep) sts))"

definition norm_I :: "reb_ode_state list \<Rightarrow> real" where
  "norm_I sts = (\<Sum>s\<leftarrow>sts. \<Sum>l<ode_length s. (ode_y0Dot s ! l / ode_scale s ! l)\<^sup>2)"

definition norm_Delta :: "reb_ode_state list \<Rightarrow> real" where
  "norm_Delta sts =
     (\<Sum>s\<leftarrow>sts. \<Sum>l<ode_length s. ((ode_yDot s ! l - ode_y0Dot s ! l) / ode_scale s ! l)\<^sup>2)"

subsection \<open>Leapfrog\<close>

text \<open>
  A drift updates the entries with \<^verbatim>\<open>i%6<3\<close> from the entries \<^verbatim>\<open>i+3\<close>, which it does not
  write; a kick updates the entries with \<^verbatim>\<open>i%6>2\<close>. \<open>src\<close> selects the vector that is
  read: \<^verbatim>\<open>y\<close> in the first sub-step, \<^verbatim>\<open>y1\<close> afterwards.
\<close>

definition leapfrog_drift ::
  "(reb_ode_state \<Rightarrow> real list) \<Rightarrow> real \<Rightarrow> reb_ode_state list \<Rightarrow> reb_ode_state list" where
  "leapfrog_drift src h sts =
     map (\<lambda>s. s\<lparr>ode_y1 := map (\<lambda>i. if i mod 6 < 3 then src s ! i + h * src s ! (i + 3)
                                   else ode_y1 s ! i) [0..<ode_length s]\<rparr>) sts"

definition leapfrog_kick ::
  "(reb_ode_state \<Rightarrow> real list) \<Rightarrow> real \<Rightarrow> reb_ode_state list \<Rightarrow> reb_ode_state list" where
  "leapfrog_kick src h sts =
     map (\<lambda>s. s\<lparr>ode_y1 := map (\<lambda>i. if i mod 6 > 2 then src s ! i + h * ode_yDot s ! i
                                   else ode_y1 s ! i) [0..<ode_length s]\<rparr>) sts"

definition leapfrog_body :: "real \<Rightarrow> real \<times> reb_ode_state list \<Rightarrow> real \<times> reb_ode_state list" where
  "leapfrog_body subStep = (\<lambda>(t, sts).
    (let t' = t + subStep;
         sts1 = leapfrog_drift ode_y1 subStep sts;
         sts2 = eval_derivatives t' sts1
     in (t', leapfrog_kick ode_y1 subStep sts2)))"

subsection \<open>\<^verbatim>\<open>tryStep\<close>\<close>

text \<open>
  The result is the return value (0 or 1) and the states. Leapfrog reads \<^verbatim>\<open>y[i+3]\<close> for
  every \<^verbatim>\<open>i < length\<close> with \<^verbatim>\<open>i%6<3\<close>, which is inside the state vector exactly when its
  length is a multiple of 6.
\<close>

definition tryStep ::
  "reb_ode_state list \<Rightarrow> int \<Rightarrow> int \<Rightarrow> real \<Rightarrow> real \<Rightarrow> int \<Rightarrow> bs_error + int \<times> reb_ode_state list" where
  "tryStep sts k n t0 step meth =
    (let subStep = step / real_of_int n
     in if meth = 0 then
          (if list_ex (\<lambda>s. ode_length s mod 6 \<noteq> 0) sts then Inl StateIndexOutOfBounds
           else
             (let sts1 = leapfrog_drift ode_y (0.5 * subStep) sts;
                  t = t0 + 0.5 * subStep;
                  sts2 = eval_derivatives t sts1;
                  sts3 = leapfrog_kick ode_y subStep sts2;
                  (t', sts4) = fold (\<lambda>j. leapfrog_body subStep) [1..<nat n] (t, sts3)
              in Inr (1, leapfrog_drift ode_y1 (0.5 * subStep) sts4)))
        else if meth = 1 then
          (let t = t0 + subStep;
               sts1 = midpoint_first subStep t sts;
               (completed, sts2) = midpoint_loop k subStep [1..<nat n] (t, sts1)
           in if \<not> completed then Inr (0, sts2)
              else Inr (1, midpoint_last subStep sts2))
        else Inl MethodUnsupported)"

section \<open>BS: extrapolation\<close>

text \<open>
  The inner loop of the sweep, for one row of the tableau: for \<open>i = 0, ..., length-1\<close> in
  turn, \<^verbatim>\<open>CD = C[i] - D[row][i]; C[i] = facC*CD; D[row][i] = facD*CD\<close>, written in place.
\<close>

definition extrapolate_row ::
  "real \<Rightarrow> real \<Rightarrow> nat \<Rightarrow> nat \<Rightarrow> real list \<times> real list list \<Rightarrow> real list \<times> real list list" where
  "extrapolate_row facC facD row len =
     fold (\<lambda>i (C, D). let CD = C ! i - D ! row ! i
                       in (C[i := facC * CD], D[row := (D ! row)[i := facD * CD]]))
          [0..<len]"

definition extrapolate_sweep ::
  "real list \<Rightarrow> nat \<Rightarrow> nat \<Rightarrow> real list \<times> real list list \<Rightarrow> real list \<times> real list list" where
  "extrapolate_sweep cf k len =
     fold (\<lambda>j. let xi = cf ! (k - j - 1);
                   xim1 = cf ! k;
                   facC = xi / (xi - xim1);
                   facD = xim1 / (xi - xim1)
               in extrapolate_row facC facD (k - j - 1) len)
          [0..<k]"

text \<open>The two loops that sum the rows into \<^verbatim>\<open>y1\<close>.\<close>

definition extrapolate_sum :: "real list list \<Rightarrow> nat \<Rightarrow> nat \<Rightarrow> real list \<Rightarrow> real list" where
  "extrapolate_sum D k len y1 =
     fold (\<lambda>j. fold (\<lambda>i y1. y1[i := y1 ! i + D ! j ! i]) [0..<len]) [1..<k + 1]
          (fold (\<lambda>i y1. y1[i := D ! 0 ! i]) [0..<len] y1)"

definition extrapolate :: "reb_ode_state \<Rightarrow> real list \<Rightarrow> nat \<Rightarrow> reb_ode_state" where
  "extrapolate state cf k =
    (let (C, D) = extrapolate_sweep cf k (ode_length state) (ode_C state, ode_D state)
     in state\<lparr>ode_C := C, ode_D := D,
              ode_y1 := extrapolate_sum D k (ode_length state) (ode_y1 state)\<rparr>)"

text \<open>
  The sweep as the specification words it, for one component: \<open>c\<close> is \<^verbatim>\<open>C[i]\<close> and
  \<open>d ! j\<close> is \<^verbatim>\<open>D[j][i]\<close>. For \<open>j = 0, ..., k-1\<close>, with \<open>xi = coeff[k-j-1]\<close> and
  \<open>xim1 = coeff[k]\<close>: \<open>CD = c - d[k-j-1]\<close>, then \<open>c = (xi/(xi-xim1)) * CD\<close> and
  \<open>d[k-j-1] = (xim1/(xi-xim1)) * CD\<close>.
\<close>

definition neville_step :: "real list \<Rightarrow> nat \<Rightarrow> nat \<Rightarrow> real \<times> real list \<Rightarrow> real \<times> real list" where
  "neville_step cf k j = (\<lambda>(c, d).
     let xi = cf ! (k - j - 1);
         xim1 = cf ! k;
         CD = c - d ! (k - j - 1)
     in ((xi / (xi - xim1)) * CD, d[k - j - 1 := (xim1 / (xi - xim1)) * CD]))"

definition neville_component :: "real list \<Rightarrow> nat \<Rightarrow> real \<times> real list \<Rightarrow> real \<times> real list" where
  "neville_component cf k = fold (neville_step cf k) [0..<k]"

text \<open>The column of component \<open>i\<close> of the tableau.\<close>

definition column :: "real list list \<Rightarrow> nat \<Rightarrow> real list" where
  "column D i = map (\<lambda>row. row ! i) D"

text \<open>The tableau, the scratch column and \<^verbatim>\<open>y1\<close> are allocated: \<^verbatim>\<open>D\<close> has a row \<open>k\<close>, and
  every buffer has room for the state vector.\<close>

definition tableau_ok :: "reb_ode_state \<Rightarrow> nat \<Rightarrow> bool" where
  "tableau_ok st k \<longleftrightarrow>
     k < length (ode_D st) \<and> ode_length st \<le> length (ode_C st)
   \<and> ode_length st \<le> length (ode_y1 st)
   \<and> list_all (\<lambda>row. ode_length st \<le> length row) (ode_D st)"

section \<open>BS: the step controller\<close>

definition reb_integrator_bs_default_scale ::
  "reb_ode_state \<Rightarrow> real list \<Rightarrow> real list \<Rightarrow> real \<Rightarrow> real \<Rightarrow> reb_ode_state" where
  "reb_integrator_bs_default_scale state y1 y2 absTol relTol =
     state\<lparr>ode_scale := map (\<lambda>i. absTol + relTol * MAX_macro \<bar>y1 ! i\<bar> \<bar>y2 ! i\<bar>)
                            [0..<ode_length state]\<rparr>"

text \<open>The scaling before the loop over the columns. The arguments of the default
  scaling are in the order in which the call passes them.\<close>

definition initial_scale :: "reb_simulation_integrator_bs \<Rightarrow> reb_ode_state \<Rightarrow> reb_ode_state" where
  "initial_scale ri s =
    (case getscale s of
       Some g \<Rightarrow> s\<lparr>ode_scale := map (g (ode_y s) (ode_y s)) [0..<ode_length s]\<rparr>
     | None \<Rightarrow> reb_integrator_bs_default_scale s (ode_y s) (ode_y s)
                 (scalRelativeTolerance ri) (scalAbsoluteTolerance ri))"

text \<open>The scaling after an extrapolation.\<close>

definition rescale :: "reb_simulation_integrator_bs \<Rightarrow> reb_ode_state \<Rightarrow> reb_ode_state" where
  "rescale ri s =
    (case getscale s of
       Some g \<Rightarrow> s\<lparr>ode_scale := map (g (ode_y s) (ode_y1 s)) [0..<ode_length s]\<rparr>
     | None \<Rightarrow> reb_integrator_bs_default_scale s (ode_y s) (ode_y s)
                 (scalRelativeTolerance ri) (scalAbsoluteTolerance ri))"

text \<open>\<^verbatim>\<open>C[i] = y1[i]; D[k][i] = y1[i]\<close> for every state.\<close>

definition seed_tableau :: "nat \<Rightarrow> reb_ode_state list \<Rightarrow> reb_ode_state list" where
  "seed_tableau k sts =
     map (\<lambda>s. s\<lparr>ode_C := map (\<lambda>i. ode_y1 s ! i) [0..<ode_length s],
                 ode_D := (ode_D s)[k := map (\<lambda>i. ode_y1 s ! i) [0..<ode_length s]]\<rparr>) sts"

text \<open>
  The error estimate: the pair of \<^verbatim>\<open>combined_length\<close> and
  \<^verbatim>\<open>sqrt(error / combined_length)\<close>. Over the reals the quotient is NaN only if
  \<^verbatim>\<open>combined_length\<close> is 0, which the caller tests.
\<close>

definition error_estimate :: "reb_ode_state list \<Rightarrow> nat \<times> real" where
  "error_estimate sts =
    (let (error, combined_length) =
           fold (\<lambda>s (error, combined_length).
                   (fold (\<lambda>j error. let e = ode_C s ! j / ode_scale s ! j
                                     in MAX_macro error (e * e)) [0..<ode_length s] error,
                    combined_length + ode_length s))
                sts (0, 0)
     in (combined_length, sqrt (error / real combined_length)))"

text \<open>An index is inside the sequence arrays (and the rows of \<^verbatim>\<open>D\<close>), which all have
  \<open>sequence_length\<close> entries.\<close>

definition inb :: "int \<Rightarrow> bool" where
  "inb i \<longleftrightarrow> 0 \<le> i \<and> i < int sequence_length"

text \<open>
  The optimal step of column \<open>k\<close>. If \<open>error\<close> is 0 then \<^verbatim>\<open>pow(error / stepControl1, exp)\<close>
  is 0 and the quotient \<^verbatim>\<open>stepControl2 / 0.\<close> is \<open>+inf\<close> in IEEE arithmetic, so that
  \<^verbatim>\<open>MIN(1. / power, fac)\<close> is \<^verbatim>\<open>1. / power\<close>; the case is written out. \<open>ex\<close> is the local
  variable \<^verbatim>\<open>exp\<close>.
\<close>

definition record_optimal_step ::
  "reb_simulation_integrator_bs \<Rightarrow> nat \<Rightarrow> real \<Rightarrow> real \<Rightarrow> reb_simulation_integrator_bs" where
  "record_optimal_step ri k dt error =
    (let ex = 1 / (2 * real k + 1);
         power = stepControl3 powr ex;
         fac = MAX_macro (power / stepControl4)
                 (if error = 0 then 1 / power
                  else MIN_bs (1 / power) (stepControl2 / (error / stepControl1) powr ex));
         opt = (optimalStep ri)[k := \<bar>dt * fac\<bar>]
     in ri\<lparr>optimalStep := opt,
           costPerTimeUnit := (costPerTimeUnit ri)[k := real_of_int (costPerStep ri ! k) / opt ! k]\<rparr>)"

text \<open>How the loop over the columns was left.\<close>

record loop_exit =
  exit_ri :: reb_simulation_integrator_bs
  exit_dt :: real
  exit_reject :: bool
  exit_k :: nat
  exit_error :: "real option"   \<comment> \<open>the last value of \<^verbatim>\<open>error\<close>, if one was computed\<close>

text \<open>
  The statements that the three rejecting branches of the \<^verbatim>\<open>switch\<close> share: lower
  \<^verbatim>\<open>targetIter\<close> if the cost model says so, and set \<^verbatim>\<open>dt = optimalStep[targetIter]\<close>.
\<close>

definition reject_order ::
  "reb_simulation_integrator_bs \<Rightarrow> nat \<Rightarrow> real \<Rightarrow> bs_error + loop_exit option" where
  "reject_order ri k error =
    (let ti = targetIter ri
     in if \<not> inb ti then Inl SequenceIndexOutOfBounds
        else
          (let ri' = (if ti > 1 \<and> costPerTimeUnit ri ! nat (ti - 1)
                                    < orderControl1 * costPerTimeUnit ri ! nat ti
                      then ri\<lparr>targetIter := ti - 1\<rparr> else ri)
           in Inr (Some \<lparr>exit_ri = ri', exit_dt = optimalStep ri' ! nat (targetIter ri'),
                         exit_reject = True, exit_k = k, exit_error = Some error\<rparr>)))"

definition accept_exit ::
  "reb_simulation_integrator_bs \<Rightarrow> nat \<Rightarrow> real \<Rightarrow> real \<Rightarrow> bs_error + loop_exit option" where
  "accept_exit ri k dt error =
     Inr (Some \<lparr>exit_ri = ri, exit_dt = dt, exit_reject = False, exit_k = k,
                 exit_error = Some error\<rparr>)"

text \<open>The \<^verbatim>\<open>switch (k - ri_bs->targetIter)\<close>. \<open>Inr None\<close>: the loop goes on.\<close>

definition check_convergence ::
  "reb_simulation_integrator_bs \<Rightarrow> nat \<Rightarrow> real \<Rightarrow> real \<Rightarrow> bs_error + loop_exit option" where
  "check_convergence ri k dt error =
    (let d = int k - targetIter ri
     in if d = - 1 then
          (if targetIter ri > 1 \<and> previousRejected ri = 0 then
             (if error \<le> 1 then accept_exit ri k dt error
              else if \<not> (inb (targetIter ri) \<and> inb (targetIter ri + 1)) then
                Inl SequenceIndexOutOfBounds
              else
                (let ratio = (real_of_int (sequence ri ! nat (targetIter ri))
                                * real_of_int (sequence ri ! nat (targetIter ri + 1)))
                             / real_of_int (sequence ri ! 0 * sequence ri ! 0)
                 in if error > ratio * ratio
                    then reject_order (ri\<lparr>targetIter := int k\<rparr>) k error
                    else Inr None))
           else Inr None)
        else if d = 0 then
          (if error \<le> 1 then accept_exit ri k dt error
           else if \<not> inb (int k + 1) then Inl SequenceIndexOutOfBounds
           else
             (let ratio = real_of_int (sequence ri ! (k + 1)) / real_of_int (sequence ri ! 0)
              in if error > ratio * ratio then reject_order ri k error
                 else Inr None))
        else if d = 1 then
          (if error > 1 then reject_order ri k error
           else accept_exit ri k dt error)
        else
          (if firstOrLastStep ri \<noteq> 0 \<and> error \<le> 1 then accept_exit ri k dt error
           else Inr None))"

text \<open>
  One pass of the body of the loop \<^verbatim>\<open>for (int loop = 1; loop; )\<close>, for the column \<open>k\<close>
  after \<^verbatim>\<open>++k\<close>. The result \<open>Inr (Inl ex)\<close> means that the pass set \<^verbatim>\<open>loop = 0\<close>, and
  \<open>Inr (Inr ri')\<close> that the loop goes on with the integrator \<open>ri'\<close>. The step \<open>dt\<close> does
  not change while the loop runs.
\<close>

definition loop_iteration ::
  "reb_simulation_integrator_bs \<Rightarrow> real \<Rightarrow> real \<Rightarrow> nat
    \<Rightarrow> bs_error + (loop_exit + reb_simulation_integrator_bs)" where
  "loop_iteration ri t dt k =
    (case tryStep (states ri) (int k) (sequence ri ! k) t dt (method_bs ri) of
       Inl e \<Rightarrow> Inl e
     | Inr (ok, sts) \<Rightarrow>
         if ok = 0 then
           Inr (Inl \<lparr>exit_ri = ri\<lparr>states := sts\<rparr>, exit_dt = \<bar>dt * stabilityReduction\<bar>,
                     exit_reject = True, exit_k = k, exit_error = None\<rparr>)
         else
           (let ri1 = ri\<lparr>states := seed_tableau k sts\<rparr>
            in if \<not> k > 0 then Inr (Inr ri1)
               else
                 (let ri2 = ri1\<lparr>states := map (\<lambda>s. rescale ri1 (extrapolate s (coeff ri1) k))
                                              (states ri1)\<rparr>;
                      (combined_length, error) = error_estimate (states ri2)
                  in if combined_length = 0 then Inl NaNDetected
                     else if error > 10 ^ 25 then
                       Inr (Inl \<lparr>exit_ri = ri2, exit_dt = \<bar>dt * stabilityReduction\<bar>,
                                 exit_reject = True, exit_k = k, exit_error = Some error\<rparr>)
                     else
                       (let ri3 = record_optimal_step ri2 k dt error
                        in case check_convergence ri3 k dt error of
                             Inl e \<Rightarrow> Inl e
                           | Inr (Some ex) \<Rightarrow> Inr (Inl ex)
                           | Inr None \<Rightarrow> Inr (Inr ri3)))))"

text \<open>
  The loop. Reading \<^verbatim>\<open>sequence[k]\<close> with \<open>k \<ge> sequence_length\<close> is the error
  \<open>SequenceIndexOutOfBounds\<close>.
\<close>

function bs_loop ::
  "reb_simulation_integrator_bs \<Rightarrow> real \<Rightarrow> real \<Rightarrow> nat \<Rightarrow> bs_error + loop_exit" where
  "bs_loop ri t dt k =
    (if \<not> k < sequence_length then Inl SequenceIndexOutOfBounds
     else
       (case loop_iteration ri t dt k of
          Inl e \<Rightarrow> Inl e
        | Inr (Inl ex) \<Rightarrow> Inr ex
        | Inr (Inr ri') \<Rightarrow> bs_loop ri' t dt (k + 1)))"
  by pat_completeness auto
termination
  by (relation "measure (\<lambda>(ri, t, dt, k). sequence_length - k)") auto

text \<open>
  What a rejected step must leave alone: in every ODE state the vector \<^verbatim>\<open>y\<close>, its
  length and the two callbacks, and in the integrator the parameters, the tables set up
  at allocation, and the flag \<^verbatim>\<open>firstOrLastStep\<close>.
\<close>

definition ode_frame ::
  "reb_ode_state \<Rightarrow> nat \<times> real list \<times> (real list \<Rightarrow> real \<Rightarrow> nat \<Rightarrow> real)
      \<times> (real list \<Rightarrow> real list \<Rightarrow> nat \<Rightarrow> real) option" where
  "ode_frame s = (ode_length s, ode_y s, derivatives s, getscale s)"

definition bs_frame ::
  "reb_simulation_integrator_bs
    \<Rightarrow> int list \<times> int list \<times> real list \<times> real \<times> real \<times> real \<times> real \<times> int \<times> int" where
  "bs_frame ri = (sequence ri, costPerStep ri, coeff ri, scalAbsoluteTolerance ri,
                  scalRelativeTolerance ri, minStep ri, maxStep ri, method_bs ri,
                  firstOrLastStep ri)"

text \<open>The sequence arrays as \<^verbatim>\<open>allocate_sequence_arrays\<close> leaves them: \<open>sequence_length\<close>
  entries each, and a positive cost for every column.\<close>

definition arrays_ok :: "reb_simulation_integrator_bs \<Rightarrow> bool" where
  "arrays_ok ri \<longleftrightarrow>
     length (sequence ri) = sequence_length \<and> length (costPerStep ri) = sequence_length
   \<and> length (coeff ri) = sequence_length \<and> length (costPerTimeUnit ri) = sequence_length
   \<and> length (optimalStep ri) = sequence_length
   \<and> list_all (\<lambda>c. 0 < c) (costPerStep ri)"

text \<open>The initial order selection.\<close>

definition select_order :: "reb_simulation_integrator_bs \<Rightarrow> reb_simulation_integrator_bs" where
  "select_order ri =
    (if targetIter ri = 0 then
       (let tol = scalRelativeTolerance ri;
            log10R = log 10 (MAX_macro (1 / 10 ^ 10) tol)
        in ri\<lparr>targetIter := MAX_macro 1 (MIN_bs (int sequence_length - 2)
                                             \<lfloor>0.5 - 0.6 * log10R\<rfloor>)\<rparr>)
     else ri)"

text \<open>Everything before the loop: order selection, scaling, and for the midpoint method
  the derivative \<^verbatim>\<open>y0Dot\<close> at the beginning of the step.\<close>

definition prepare_step :: "reb_simulation_integrator_bs \<Rightarrow> real \<Rightarrow> reb_simulation_integrator_bs" where
  "prepare_step ri t =
    (let ri0 = select_order ri;
         sts1 = map (initial_scale ri0) (states ri0);
         sts2 = (if method_bs ri0 = 1
                 then map (\<lambda>s. s\<lparr>ode_y0Dot := map (derivatives s (ode_y s) t) [0..<ode_length s]\<rparr>)
                          sts1
                 else sts1)
     in ri0\<lparr>states := sts2\<rparr>)"

text \<open>
  The block \<^verbatim>\<open>if (! reject)\<close>: the swap of \<^verbatim>\<open>y\<close> and \<^verbatim>\<open>y1\<close>, the choice of
  \<^verbatim>\<open>optimalIter\<close>, and the new step and order. The result is the integrator and \<^verbatim>\<open>dt\<close>.
\<close>

definition optimal_iter :: "reb_simulation_integrator_bs \<Rightarrow> int \<Rightarrow> bs_error + int" where
  "optimal_iter ri k =
    (if k = 1 then Inr (if previousRejected ri \<noteq> 0 then 1 else 2)
     else if k \<le> targetIter ri then
       (if \<not> (inb (k - 1) \<and> inb k) then Inl SequenceIndexOutOfBounds
        else if costPerTimeUnit ri ! nat (k - 1) < orderControl1 * costPerTimeUnit ri ! nat k
        then Inr (k - 1)
        else if costPerTimeUnit ri ! nat k < orderControl2 * costPerTimeUnit ri ! nat (k - 1)
        then Inr (MIN_bs (k + 1) (int sequence_length - 2))
        else Inr k)
     else
       (if \<not> (inb (k - 1) \<and> inb k \<and> (k > 2 \<longrightarrow> inb (k - 2))) then Inl SequenceIndexOutOfBounds
        else
          (let optimalIter =
                 (if k > 2 \<and> costPerTimeUnit ri ! nat (k - 2)
                               < orderControl1 * costPerTimeUnit ri ! nat (k - 1)
                  then k - 2 else k - 1)
           in if costPerTimeUnit ri ! nat k < orderControl2 * costPerTimeUnit ri ! nat optimalIter
              then Inr (MIN_bs k (int sequence_length - 2))
              else Inr optimalIter)))"

definition accept_update ::
  "reb_simulation_integrator_bs \<Rightarrow> nat \<Rightarrow> real
    \<Rightarrow> bs_error + reb_simulation_integrator_bs \<times> real" where
  "accept_update ri kn dt =
    (let k = int kn;
         ri1 = ri\<lparr>states := map (\<lambda>s. s\<lparr>ode_y := ode_y1 s, ode_y1 := ode_y s\<rparr>) (states ri)\<rparr>
     in case optimal_iter ri1 k of
          Inl e \<Rightarrow> Inl e
        | Inr optimalIter \<Rightarrow>
            if previousRejected ri1 \<noteq> 0 then
              (let ti = MIN_bs optimalIter k
               in if \<not> inb ti then Inl SequenceIndexOutOfBounds
                  else Inr (ri1\<lparr>targetIter := ti\<rparr>, MIN_bs \<bar>dt\<bar> (optimalStep ri1 ! nat ti)))
            else if optimalIter \<le> k then
              (if \<not> inb optimalIter then Inl SequenceIndexOutOfBounds
               else Inr (ri1\<lparr>targetIter := optimalIter\<rparr>, optimalStep ri1 ! nat optimalIter))
            else if \<not> inb k then Inl SequenceIndexOutOfBounds
            else if k < targetIter ri1 \<and> \<not> inb (k - 1) then Inl SequenceIndexOutOfBounds
            else if k < targetIter ri1
                    \<and> costPerTimeUnit ri1 ! nat k
                        < orderControl2 * costPerTimeUnit ri1 ! nat (k - 1) then
              (if \<not> inb (optimalIter + 1) then Inl SequenceIndexOutOfBounds
               else Inr (ri1\<lparr>targetIter := optimalIter\<rparr>,
                         optimalStep ri1 ! nat k * real_of_int (costPerStep ri1 ! nat (optimalIter + 1))
                           / real_of_int (costPerStep ri1 ! nat k)))
            else
              (if \<not> inb optimalIter then Inl SequenceIndexOutOfBounds
               else Inr (ri1\<lparr>targetIter := optimalIter\<rparr>,
                         optimalStep ri1 ! nat k * real_of_int (costPerStep ri1 ! nat optimalIter)
                           / real_of_int (costPerStep ri1 ! nat k))))"

text \<open>
  The step up to the point where \<^verbatim>\<open>dt\<close> is final but not yet checked against the
  bounds: preparation, loop, and the update after an accepted step.
\<close>

definition step_core ::
  "reb_simulation_integrator_bs \<Rightarrow> real \<Rightarrow> real \<Rightarrow> bs_error + loop_exit" where
  "step_core ri t dt =
    (case bs_loop (prepare_step ri t) t dt 0 of
       Inl e \<Rightarrow> Inl e
     | Inr ex \<Rightarrow>
         if exit_reject ex then Inr ex
         else
           (case accept_update (exit_ri ex) (exit_k ex) (exit_dt ex) of
              Inl e \<Rightarrow> Inl e
            | Inr (ri', dt') \<Rightarrow> Inr (ex\<lparr>exit_ri := ri', exit_dt := dt'\<rparr>)))"

text \<open>The end of the function: the bounds on the step, its sign, and the flags. The
  result is the return value and the integrator.\<close>

definition reb_integrator_bs_step ::
  "reb_simulation_integrator_bs \<Rightarrow> real \<Rightarrow> real
    \<Rightarrow> bs_error + int \<times> reb_simulation_integrator_bs" where
  "reb_integrator_bs_step ri t dt0 =
    (let forward = (dt0 \<ge> 0)
     in case step_core ri t dt0 of
          Inl e \<Rightarrow> Inl e
        | Inr ex \<Rightarrow>
            (let ri1 = exit_ri ex;
                 reject = exit_reject ex;
                 dt = \<bar>exit_dt ex\<bar>
             in if dt < minStep ri1 then Inl MinStepHit
                else if dt > maxStep ri1 \<and> maxStep ri1 > 0 then Inl MaxStepHit
                else
                  (let dt' = (if \<not> forward then - dt else dt);
                       ri2 = ri1\<lparr>dt_proposed := dt'\<rparr>
                   in if reject then Inr (0, ri2\<lparr>previousRejected := 1\<rparr>)
                      else Inr (1, ri2\<lparr>previousRejected := 0, firstOrLastStep := 0\<rparr>))))"

text \<open>\<^verbatim>\<open>allocate_sequence_arrays\<close>: the five arrays, of which \<^verbatim>\<open>costPerTimeUnit\<close> has only
  its first entry initialised and \<^verbatim>\<open>optimalStep\<close> none; \<open>cptu\<close> and \<open>opt\<close> are the
  contents that \<^verbatim>\<open>malloc\<close> happens to give them.\<close>

definition allocate_sequence_arrays ::
  "real list \<Rightarrow> real list \<Rightarrow> reb_simulation_integrator_bs \<Rightarrow> reb_simulation_integrator_bs" where
  "allocate_sequence_arrays cptu opt ri =
    (let seq = map (\<lambda>k. 4 * int k + 2) [0..<sequence_length];
         cost = fold (\<lambda>k c. c[k := c ! (k - 1) + seq ! k]) [1..<sequence_length]
                     ((replicate sequence_length 0)[0 := seq ! 0 + 1])
     in ri\<lparr>sequence := seq,
           costPerStep := cost,
           coeff := map (\<lambda>j. let r = 1 / real_of_int (seq ! j) in r * r) [0..<sequence_length],
           costPerTimeUnit := (take sequence_length cptu)[0 := 0],
           optimalStep := take sequence_length opt\<rparr>)"

subsection \<open>A small integrator\<close>

text \<open>
  One ODE with one component, \<open>y = 3\<close>, and right-hand side \<open>rhs\<close>; tolerances 1
  (absolute) and 2 (relative); no bounds on the step (\<^verbatim>\<open>minStep = 0\<close>, and
  \<^verbatim>\<open>maxStep = 0\<close> switches the upper bound off); midpoint method, target column 1.
\<close>

definition ode_example :: "(real list \<Rightarrow> real \<Rightarrow> nat \<Rightarrow> real) \<Rightarrow> reb_ode_state" where
  "ode_example rhs =
     \<lparr>ode_length = 1, ode_y = [3], ode_y1 = [5], ode_y0Dot = [0], ode_yDot = [0],
      ode_yTmp = [0], ode_C = [2], ode_scale = [1],
      ode_D = [[1], [2], [0], [0], [0], [0], [0], [0], [0]],
      derivatives = rhs, getscale = None\<rparr>"

definition bs_example :: "(real list \<Rightarrow> real \<Rightarrow> nat \<Rightarrow> real) \<Rightarrow> reb_simulation_integrator_bs" where
  "bs_example rhs =
     allocate_sequence_arrays (replicate 9 0) (replicate 9 0)
       \<lparr>states = [ode_example rhs], sequence = [], costPerStep = [], coeff = [],
        costPerTimeUnit = [], optimalStep = [],
        scalAbsoluteTolerance = 1, scalRelativeTolerance = 2, minStep = 0, maxStep = 0,
        dt_proposed = 0, method_bs = 1, targetIter = 1, previousRejected = 0,
        firstOrLastStep = 1\<rparr>"

section \<open>MERCURANA: composition schemes\<close>

text \<open>
  \<^verbatim>\<open>enum REB_EOS_TYPE\<close> is declared in \<^verbatim>\<open>rebound.h\<close>; the nine constants are the ones
  the \<^verbatim>\<open>switch\<close> of \<^verbatim>\<open>reb_integrator_mercurana_step\<close> names.
\<close>

datatype REB_EOS_TYPE =
    REB_EOS_LF | REB_EOS_LF4 | REB_EOS_LF6 | REB_EOS_LF8 | REB_EOS_LF4_2
  | REB_EOS_LF8_6_4 | REB_EOS_PLF7_6_4 | REB_EOS_PMLF4 | REB_EOS_PMLF6

text \<open>
  The coefficient tables \<^verbatim>\<open>reb_eos_pmlf6_z\<close>, ... live in \<^verbatim>\<open>integrator_eos.c\<close>, which is
  not part of the sources at hand. They are a parameter of the model.
\<close>

record eos_tables =
  reb_eos_pmlf6_z :: "real list"
  reb_eos_pmlf6_y :: "real list"
  reb_eos_pmlf6_v :: "real list"
  reb_eos_pmlf4_y :: "real list"
  reb_eos_pmlf4_z :: "real list"
  reb_eos_plf7_6_4_z :: "real list"
  reb_eos_plf7_6_4_y :: "real list"

text \<open>
  The pre- and post-processor do nothing but call the drift step and the interaction
  step. A call is recorded with its arguments; a processor is the list of the calls it
  makes, in the order in which it makes them.
\<close>

datatype call =
    Drift_step real int            \<comment> \<open>\<^verbatim>\<open>reb_integrator_mercurana_drift_step(r, a, shell)\<close>\<close>
  | Interaction_step real real int \<comment> \<open>\<^verbatim>\<open>reb_integrator_mercurana_interaction_step(r, y, v, shell)\<close>\<close>

definition reb_integrator_mercurana_preprocessor ::
  "eos_tables \<Rightarrow> real \<Rightarrow> int \<Rightarrow> REB_EOS_TYPE \<Rightarrow> call list" where
  "reb_integrator_mercurana_preprocessor T dt shell type =
    (case type of
       REB_EOS_PMLF6 \<Rightarrow>
         concat (map (\<lambda>i. [Drift_step (dt * reb_eos_pmlf6_z T ! i) shell,
                            Interaction_step (dt * reb_eos_pmlf6_y T ! i)
                                             (dt * dt * dt * reb_eos_pmlf6_v T ! i) shell])
                     [0..<6])
     | REB_EOS_PMLF4 \<Rightarrow>
         concat (map (\<lambda>i. [Interaction_step (dt * reb_eos_pmlf4_y T ! i) 0 shell,
                            Drift_step (dt * reb_eos_pmlf4_z T ! i) shell])
                     [0..<3])
     | REB_EOS_PLF7_6_4 \<Rightarrow>
         concat (map (\<lambda>i. [Drift_step (dt * reb_eos_plf7_6_4_z T ! i) shell,
                            Interaction_step (dt * reb_eos_plf7_6_4_y T ! i) 0 shell])
                     [0..<6])
     | _ \<Rightarrow> [])"

definition reb_integrator_mercurana_postprocessor ::
  "eos_tables \<Rightarrow> real \<Rightarrow> int \<Rightarrow> REB_EOS_TYPE \<Rightarrow> call list" where
  "reb_integrator_mercurana_postprocessor T dt shell type =
    (case type of
       REB_EOS_PMLF6 \<Rightarrow>
         concat (map (\<lambda>i. [Interaction_step (- dt * reb_eos_pmlf6_y T ! i)
                                             (- dt * dt * dt * reb_eos_pmlf6_v T ! i) shell,
                            Drift_step (- dt * reb_eos_pmlf6_z T ! i) shell])
                     (rev [0..<6]))
     | REB_EOS_PMLF4 \<Rightarrow>
         concat (map (\<lambda>i. [Drift_step (- dt * reb_eos_pmlf4_z T ! i) shell,
                            Interaction_step (- dt * reb_eos_pmlf4_y T ! i) 0 shell])
                     (rev [0..<3]))
     | REB_EOS_PLF7_6_4 \<Rightarrow>
         concat (map (\<lambda>i. [Interaction_step (- dt * reb_eos_plf7_6_4_y T ! i) 0 shell,
                            Drift_step (- dt * reb_eos_plf7_6_4_z T ! i) shell])
                     (rev [0..<6]))
     | _ \<Rightarrow> [])"

text \<open>Negating every coefficient of a call: the drift length, the kick and the jerk.\<close>

fun negated :: "call \<Rightarrow> call" where
  "negated (Drift_step a shell) = Drift_step (- a) shell"
| "negated (Interaction_step y v shell) = Interaction_step (- y) (- v) shell"

section \<open>MERCURANA: particles and shells\<close>

text \<open>
  The three Cartesian components of a position, velocity, acceleration or jerk are kept
  together as one vector; the code updates the three components by the same formula, one
  line each.
\<close>

datatype vec3 = Vec3 (xc: real) (yc: real) (zc: real)

instantiation vec3 :: ab_group_add
begin

definition zero_vec3 :: vec3 where
  "zero_vec3 = Vec3 0 0 0"

definition plus_vec3 :: "vec3 \<Rightarrow> vec3 \<Rightarrow> vec3" where
  "plus_vec3 a b = Vec3 (xc a + xc b) (yc a + yc b) (zc a + zc b)"

definition uminus_vec3 :: "vec3 \<Rightarrow> vec3" where
  "uminus_vec3 a = Vec3 (- xc a) (- yc a) (- zc a)"

definition minus_vec3 :: "vec3 \<Rightarrow> vec3 \<Rightarrow> vec3" where
  "minus_vec3 a b = Vec3 (xc a - xc b) (yc a - yc b) (zc a - zc b)"

instance
  by standard
     (simp_all add: zero_vec3_def plus_vec3_def uminus_vec3_def minus_vec3_def vec3.expand)

end

definition smult :: "real \<Rightarrow> vec3 \<Rightarrow> vec3" where
  "smult c a = Vec3 (c * xc a) (c * yc a) (c * zc a)"

definition dot :: "vec3 \<Rightarrow> vec3 \<Rightarrow> real" where
  "dot a b = xc a * xc b + yc a * yc b + zc a * zc b"

text \<open>The fields of \<^verbatim>\<open>struct reb_particle\<close> that the integrator reads or writes.\<close>

record reb_particle =
  pos :: vec3   \<comment> \<open>\<^verbatim>\<open>x, y, z\<close>\<close>
  vel :: vec3   \<comment> \<open>\<^verbatim>\<open>vx, vy, vz\<close>\<close>
  acc :: vec3   \<comment> \<open>\<^verbatim>\<open>ax, ay, az\<close>\<close>
  mass :: real  \<comment> \<open>\<^verbatim>\<open>m\<close>\<close>

text \<open>
  The simulation together with its \<^verbatim>\<open>ri_mercurana\<close> part. \<open>shell_map\<close> is the field
  \<^verbatim>\<open>map\<close>, \<open>jerk\<close> holds the \<^verbatim>\<open>ax, ay, az\<close> fields of the scratch particles
  \<^verbatim>\<open>rim->jerk\<close>, and \<open>L\<close>, \<open>dLdr\<close> are the two function pointers (their first
  argument, the simulation, is not used by any switching function and is dropped).
\<close>

record reb_simulation =
  particles :: "reb_particle list"
  G :: real
  testparticle_type :: int
  whsplitting :: bool
  Nmaxshells :: nat
  shellN :: "nat list"
  shellN_active :: "nat list"
  shell_map :: "nat list list"
  dcrit :: "real list list"
  inshell :: "nat list"
  jerk :: "vec3 list"
  L :: "real \<Rightarrow> real \<Rightarrow> real \<Rightarrow> real"
  dLdr :: "real \<Rightarrow> real \<Rightarrow> real \<Rightarrow> real"

subsection \<open>The default switching function\<close>

text \<open>
  \<open>f_inf\<close> is the helper \<^verbatim>\<open>f\<close>. \<^verbatim>\<open>f(0)\<close> is \<^verbatim>\<open>exp(-1./0.) = exp(-inf) = 0\<close> in IEEE arithmetic; the case is written out
  because division by zero is zero in HOL.
\<close>

definition f_inf :: "real \<Rightarrow> real" where
  "f_inf x = (if x < 0 then 0 else if x = 0 then 0 else exp (- 1 / x))"

definition reb_integrator_mercurana_L_infinity :: "real \<Rightarrow> real \<Rightarrow> real \<Rightarrow> real" where
  "reb_integrator_mercurana_L_infinity d ri ro =
    (let y = (d - ri) / (ro - ri)
     in if y < 0 then 0
        else if y > 1 then 1
        else f_inf y / (f_inf y + f_inf (1 - y)))"

subsection \<open>Encounter prediction\<close>








text \<open>
  The particles of a shell, \<^verbatim>\<open>map[s][0..shellN[s])\<close>, and what the code takes for
  granted about a shell it works on: the arrays are allocated, the active particles come
  first, no particle is listed twice, and every entry is the index of a particle. The
  sub-shell must have room for all particles of the shell (\<^verbatim>\<open>part1\<close> allocates every
  \<^verbatim>\<open>map[s]\<close> with one entry per particle).
\<close>

definition shell_members :: "reb_simulation \<Rightarrow> nat \<Rightarrow> nat list" where
  "shell_members r s = take (shellN r ! s) (shell_map r ! s)"

definition shell_ok :: "reb_simulation \<Rightarrow> nat \<Rightarrow> bool" where
  "shell_ok r s \<longleftrightarrow>
     s < length (shell_map r) \<and> s < length (shellN r) \<and> s < length (shellN_active r)
   \<and> shellN_active r ! s \<le> shellN r ! s
   \<and> shellN r ! s \<le> length (shell_map r ! s)
   \<and> distinct (shell_members r s)
   \<and> list_all (\<lambda>m. m < length (inshell r) \<and> m < length (particles r)) (shell_members r s)"

definition subshell_ok :: "reb_simulation \<Rightarrow> nat \<Rightarrow> bool" where
  "subshell_ok r s \<longleftrightarrow>
     s + 1 < length (shell_map r) \<and> s + 1 < length (shellN r)
   \<and> shellN r ! s \<le> length (shell_map r ! (s + 1))"

subsection \<open>Drift\<close>



subsection \<open>Shell-local weight of a pair\<close>

text \<open>
  The computation of \<^verbatim>\<open>Lsum\<close> in the pair loops of
  \<^verbatim>\<open>reb_integrator_mercurana_interaction_step\<close>. \<open>i\<close> is the loop index that the test
  \<^verbatim>\<open>(!rim->whsplitting) || shell!=1 || i!=0\<close> looks at (\<^verbatim>\<open>j\<close> in the loops over passive
  particles). The pointer \<^verbatim>\<open>dcrit_o\<close> is non-null iff \<^verbatim>\<open>shell>0\<close>, and \<^verbatim>\<open>dcrit_i\<close> is
  non-null iff \<^verbatim>\<open>shell<Nmaxshells-1\<close>.
\<close>

definition pair_Lsum :: "reb_simulation \<Rightarrow> nat \<Rightarrow> nat \<Rightarrow> nat \<Rightarrow> nat \<Rightarrow> real \<Rightarrow> real" where
  "pair_Lsum r shell i mi mj dr =
    (let dc_c = dcrit r ! shell ! mi + dcrit r ! shell ! mj;
         Lsum0 = 0;
         Lsum1 = (if shell > 0 \<and> (\<not> whsplitting r \<or> shell \<noteq> 1 \<or> i \<noteq> 0)
                  then Lsum0 - L r dr dc_c (dcrit r ! (shell - 1) ! mi + dcrit r ! (shell - 1) ! mj)
                  else Lsum0)
     in if shell + 1 < Nmaxshells r
        then Lsum1 + L r dr (dcrit r ! (shell + 1) ! mi + dcrit r ! (shell + 1) ! mj) dc_c
        else Lsum1 + 1)"

text \<open>The first index of the pair loops: \<^verbatim>\<open>starti\<close>.\<close>

definition starti :: "reb_simulation \<Rightarrow> nat \<Rightarrow> nat" where
  "starti r shell = (if whsplitting r \<and> shell = 0 then 1 else 0)"

text \<open>The same computation for \<^verbatim>\<open>dLdrsum\<close> in the jerk loops.\<close>

definition pair_dLdrsum :: "reb_simulation \<Rightarrow> nat \<Rightarrow> nat \<Rightarrow> nat \<Rightarrow> nat \<Rightarrow> real \<Rightarrow> real" where
  "pair_dLdrsum r shell i mi mj dr =
    (let dc_c = dcrit r ! shell ! mi + dcrit r ! shell ! mj;
         dLdrsum0 = 0;
         dLdrsum1 = (if shell > 0 \<and> (\<not> whsplitting r \<or> shell \<noteq> 1 \<or> i \<noteq> 0)
                  then dLdrsum0
                       - dLdr r dr dc_c (dcrit r ! (shell - 1) ! mi + dcrit r ! (shell - 1) ! mj)
                  else dLdrsum0)
     in if shell + 1 < Nmaxshells r
        then dLdrsum1 + dLdr r dr (dcrit r ! (shell + 1) ! mi + dcrit r ! (shell + 1) ! mj) dc_c
        else dLdrsum1)"

subsection \<open>Interaction step\<close>

text \<open>
  A loop that polls the flag \<^verbatim>\<open>reb_sigint\<close> at the start of every iteration and returns
  from the function when it is set. The flag is set from outside (a signal handler), so
  its value at each poll is a parameter \<open>sg\<close>; the result says whether the loop returned
  early.
\<close>

fun sig_loop :: "(nat \<Rightarrow> bool) \<Rightarrow> (nat \<Rightarrow> 's \<Rightarrow> 's) \<Rightarrow> nat list \<Rightarrow> 's \<Rightarrow> 's \<times> bool" where
  "sig_loop sg body [] s = (s, False)"
| "sig_loop sg body (i # is) s = (if sg i then (s, True) else sig_loop sg body is (body i s))"

definition add_acc :: "nat \<Rightarrow> vec3 \<Rightarrow> reb_particle list \<Rightarrow> reb_particle list" where
  "add_acc mi a ps = ps[mi := (ps ! mi)\<lparr>acc := acc (ps ! mi) + a\<rparr>]"

text \<open>The body of the first acceleration loop (active \<open>i\<close>, active \<open>j > i\<close>).\<close>

definition acc_pair_active ::
  "reb_simulation \<Rightarrow> nat \<Rightarrow> nat \<Rightarrow> nat \<Rightarrow> nat \<Rightarrow> reb_particle list \<Rightarrow> reb_particle list" where
  "acc_pair_active r shell i mi mj ps =
    (let d = pos (ps ! mi) - pos (ps ! mj);
         dr = sqrt (dot d d);
         Lsum = pair_Lsum r shell i mi mj dr;
         prefact = G r * Lsum / (dr * dr * dr);
         prefactj = - prefact * mass (ps ! mj);
         prefacti = prefact * mass (ps ! mi)
     in add_acc mj (smult prefacti d) (add_acc mi (smult prefactj d) ps))"

text \<open>The body of the second acceleration loop (passive \<open>i\<close>, active \<open>j\<close>).\<close>

definition acc_pair_passive ::
  "reb_simulation \<Rightarrow> nat \<Rightarrow> nat \<Rightarrow> nat \<Rightarrow> nat \<Rightarrow> reb_particle list \<Rightarrow> reb_particle list" where
  "acc_pair_passive r shell j mi mj ps =
    (let d = pos (ps ! mi) - pos (ps ! mj);
         dr = sqrt (dot d d);
         Lsum = pair_Lsum r shell j mi mj dr;
         prefact = G r * Lsum / (dr * dr * dr);
         prefactj = - prefact * mass (ps ! mj);
         ps1 = add_acc mi (smult prefactj d) ps
     in if testparticle_type r \<noteq> 0
        then add_acc mj (smult (prefact * mass (ps1 ! mi)) d) ps1
        else ps1)"

definition add_jerk :: "nat \<Rightarrow> vec3 \<Rightarrow> vec3 list \<Rightarrow> vec3 list" where
  "add_jerk i a jk = jk[i := jk ! i + a]"

text \<open>The body of the first jerk loop; the four updates in the order of the source.\<close>

definition jerk_pair_active ::
  "reb_simulation \<Rightarrow> reb_particle list \<Rightarrow> nat \<Rightarrow> nat \<Rightarrow> nat \<Rightarrow> nat \<Rightarrow> nat
    \<Rightarrow> vec3 list \<Rightarrow> vec3 list" where
  "jerk_pair_active r ps shell i j mi mj jk =
    (let d = pos (ps ! mj) - pos (ps ! mi);
         da = acc (ps ! mj) - acc (ps ! mi);
         dr = sqrt (dot d d);
         Lsum = pair_Lsum r shell i mi mj dr;
         dLdrsum = pair_dLdrsum r shell i mi mj dr;
         alphasum = dot da d;
         prefact2 = 2 * G r / (dr * dr * dr);
         prefact2i = Lsum * prefact2 * mass (ps ! mi);
         prefact2j = Lsum * prefact2 * mass (ps ! mj);
         jk1 = add_jerk j (- smult prefact2i da) jk;
         jk2 = add_jerk i (smult prefact2j da) jk1;
         prefact1 = alphasum * prefact2 / dr * (3 * Lsum / dr - dLdrsum);
         prefact1i = prefact1 * mass (ps ! mi);
         prefact1j = prefact1 * mass (ps ! mj);
         jk3 = add_jerk j (smult prefact1i d) jk2
     in add_jerk i (- smult prefact1j d) jk3)"

text \<open>The body of the second jerk loop (passive \<open>i\<close>, active \<open>j\<close>).\<close>

definition jerk_pair_passive ::
  "reb_simulation \<Rightarrow> reb_particle list \<Rightarrow> nat \<Rightarrow> nat \<Rightarrow> nat \<Rightarrow> nat \<Rightarrow> nat
    \<Rightarrow> vec3 list \<Rightarrow> vec3 list" where
  "jerk_pair_passive r ps shell i j mi mj jk =
    (let d = pos (ps ! mj) - pos (ps ! mi);
         da = acc (ps ! mj) - acc (ps ! mi);
         dr = sqrt (dot d d);
         Lsum = pair_Lsum r shell j mi mj dr;
         dLdrsum = pair_dLdrsum r shell j mi mj dr;
         alphasum = dot da d;
         prefact2 = 2 * G r / (dr * dr * dr);
         prefact2j = Lsum * prefact2 * mass (ps ! mj);
         prefact1 = alphasum * prefact2 / dr * (3 * Lsum / dr - dLdrsum);
         prefact1j = prefact1 * mass (ps ! mj);
         jk1 = add_jerk i (smult prefact2j da) jk;
         jk2 = add_jerk i (- smult prefact1j d) jk1
     in if testparticle_type r \<noteq> 0
        then (let prefact1i = prefact1 * mass (ps ! mi);
                  prefact2i = Lsum * prefact2 * mass (ps ! mi);
                  jk3 = add_jerk j (smult prefact1i d) jk2
              in add_jerk j (- smult prefact2i da) jk3)
        else jk2)"

text \<open>The final loops: \<^verbatim>\<open>v += y*a + v*jerk\<close>, or \<^verbatim>\<open>v += y*a\<close> when no jerk is used.\<close>

definition kick_jerk :: "nat list \<Rightarrow> nat \<Rightarrow> real \<Rightarrow> real \<Rightarrow> vec3 list
    \<Rightarrow> reb_particle list \<Rightarrow> reb_particle list" where
  "kick_jerk mp N y v jk ps =
     fold (\<lambda>i ps. let mi = mp ! i
                  in ps[mi := (ps ! mi)\<lparr>vel := vel (ps ! mi) + (smult y (acc (ps ! mi))
                                                              + smult v (jk ! i))\<rparr>])
          [0..<N] ps"

definition kick :: "nat list \<Rightarrow> nat \<Rightarrow> real \<Rightarrow> reb_particle list \<Rightarrow> reb_particle list" where
  "kick mp N y ps =
     fold (\<lambda>i ps. let mi = mp ! i
                  in ps[mi := (ps ! mi)\<lparr>vel := vel (ps ! mi) + smult y (acc (ps ! mi))\<rparr>])
          [0..<N] ps"

text \<open>
  \<open>sg k i\<close> is the value of \<^verbatim>\<open>reb_sigint\<close> when the \<open>k\<close>-th of the four pair loops polls
  it in iteration \<open>i\<close>.
\<close>

definition reb_integrator_mercurana_interaction_step ::
  "(nat \<Rightarrow> nat \<Rightarrow> bool) \<Rightarrow> reb_simulation \<Rightarrow> real \<Rightarrow> real \<Rightarrow> nat \<Rightarrow> reb_simulation" where
  "reb_integrator_mercurana_interaction_step sg r y v shell =
    (let N = shellN r ! shell;
         N_active = shellN_active r ! shell;
         mp = shell_map r ! shell;
         ps0 = fold (\<lambda>i ps. ps[mp ! i := (ps ! (mp ! i))\<lparr>acc := 0\<rparr>]) [0..<N] (particles r);
         st = starti r shell;
         (ps1, ret1) = sig_loop (sg 1)
            (\<lambda>i. fold (\<lambda>j. acc_pair_active r shell i (mp ! i) (mp ! j)) [i + 1..<N_active])
            [st..<N_active] ps0
     in if ret1 then r\<lparr>particles := ps1\<rparr>
        else
          (let (ps2, ret2) = sig_loop (sg 2)
                 (\<lambda>i. fold (\<lambda>j. acc_pair_passive r shell j (mp ! i) (mp ! j)) [st..<N_active])
                 [N_active..<N] ps1
           in if ret2 then r\<lparr>particles := ps2\<rparr>
              else if v \<noteq> 0 then
                (let jk0 = fold (\<lambda>j jk. jk[j := 0]) [0..<N] (jerk r);
                     (jk1, ret3) = sig_loop (sg 3)
                        (\<lambda>i. fold (\<lambda>j. jerk_pair_active r ps2 shell i j (mp ! i) (mp ! j))
                                   [i + 1..<N_active])
                        [st..<N_active] jk0
                 in if ret3 then r\<lparr>particles := ps2, jerk := jk1\<rparr>
                    else
                      (let (jk2, ret4) = sig_loop (sg 4)
                             (\<lambda>i. fold (\<lambda>j. jerk_pair_passive r ps2 shell i j (mp ! i) (mp ! j))
                                        [st..<N_active])
                             [N_active..<N] jk1
                       in if ret4 then r\<lparr>particles := ps2, jerk := jk2\<rparr>
                          else r\<lparr>particles := kick_jerk mp N y v jk2 ps2, jerk := jk2\<rparr>))
              else r\<lparr>particles := kick mp N y ps2\<rparr>))"

text \<open>Total momentum of the particles of a shell.\<close>

definition momentum :: "reb_simulation \<Rightarrow> nat \<Rightarrow> vec3" where
  "momentum r shell =
     (\<Sum>i<shellN r ! shell.
        smult (mass (particles r ! (shell_map r ! shell ! i)))
              (vel (particles r ! (shell_map r ! shell ! i))))"

subsection \<open>Two small simulations\<close>

text \<open>
  Two particles at rest at distance 1, each with critical radius 1 in both shells, so that
  they are in encounter; two shells. \<open>two_body_wh\<close> uses the Wisdom-Holman splitting,
  \<open>two_body\<close> does not.
\<close>

definition two_body_wh :: reb_simulation where
  "two_body_wh =
     \<lparr>particles = [\<lparr>pos = Vec3 0 0 0, vel = Vec3 0 0 0, acc = Vec3 0 0 0, mass = 1\<rparr>,
                   \<lparr>pos = Vec3 1 0 0, vel = Vec3 0 0 0, acc = Vec3 0 0 0, mass = 1\<rparr>],
      G = 1, testparticle_type = 0, whsplitting = True, Nmaxshells = 2,
      shellN = [2, 0], shellN_active = [2, 0], shell_map = [[0, 1], [0, 0]],
      dcrit = [[1, 1], [1, 1]], inshell = [1, 1], jerk = [Vec3 0 0 0, Vec3 0 0 0],
      L = reb_integrator_mercurana_L_infinity, dLdr = (\<lambda>d ri ro. 0)\<rparr>"

definition two_body :: reb_simulation where
  "two_body = two_body_wh\<lparr>whsplitting := False\<rparr>"

section \<open>BS: the macros\<close>

lemma MAX_macro_max [simp]: "MAX_macro a b = max a b"
proof (cases "b < a")
  case True
  then have "\<not> a \<le> b" by (simp add: not_le)
  with True show ?thesis by (simp add: MAX_macro_def max_def)
next
  case False
  then have "a \<le> b" by (simp add: not_less)
  with False show ?thesis by (simp add: MAX_macro_def max_def)
qed

lemma MIN_bs_min [simp]: "MIN_bs a b = min a b"
proof (cases "a < b")
  case True
  then show ?thesis by (simp add: MIN_bs_def min_def less_imp_le)
next
  case False
  then have "b \<le> a" by (simp add: not_less)
  then have "a \<le> b \<Longrightarrow> a = b" by (rule order.antisym[rotated])
  then show ?thesis using False by (auto simp: MIN_bs_def min_def)
qed


section \<open>BS: the default scale as the step calls it\<close>

text \<open>
  The function \<^verbatim>\<open>reb_integrator_bs_default_scale\<close> computes
  \<open>absTol + relTol * max(|y1[i]|, |y2[i]|)\<close> from its parameters, but both calls pass the
  relative tolerance for \<^verbatim>\<open>absTol\<close> and the absolute tolerance for \<^verbatim>\<open>relTol\<close>, and both
  pass \<^verbatim>\<open>y\<close> for both vectors.
\<close>

lemma default_scale_as_called:
  assumes "getscale s = None"
  shows "ode_scale (initial_scale ri s)
           = map (\<lambda>i. scalRelativeTolerance ri + scalAbsoluteTolerance ri * \<bar>ode_y s ! i\<bar>)
                 [0..<ode_length s]"
    and "ode_scale (rescale ri s)
           = map (\<lambda>i. scalRelativeTolerance ri + scalAbsoluteTolerance ri * \<bar>ode_y s ! i\<bar>)
                 [0..<ode_length s]"
  using assms by (simp_all add: initial_scale_def rescale_def reb_integrator_bs_default_scale_def)

lemma upt_1: "[0..<1] = [0]"
  by simp

lemma ode_example_fields:
  "getscale (ode_example rhs) = None" "ode_length (ode_example rhs) = 1"
  "ode_y (ode_example rhs) = [3]" "ode_y1 (ode_example rhs) = [5]"
  by (simp_all add: ode_example_def)

lemma bs_example_tolerances:
  "scalAbsoluteTolerance (bs_example rhs) = 1" "scalRelativeTolerance (bs_example rhs) = 2"
  by (simp_all add: bs_example_def allocate_sequence_arrays_def Let_def)

text \<open>
  Claim C1 fails on the code. With absolute tolerance 1, relative tolerance 2, \<open>y = 3\<close>
  and an extrapolated \<open>y1 = 5\<close>, the claim gives the scale \<open>1 + 2 * 3 = 7\<close> before the
  loop and \<open>1 + 2 * max(3, 5) = 11\<close> after the extrapolation; the code computes
  \<open>2 + 1 * 3 = 5\<close> both times.
\<close>

theorem default_scale_differs_from_claim:
  "getscale (ode_example (\<lambda>y t i. 0)) = None
   \<and> ode_scale (initial_scale (bs_example (\<lambda>y t i. 0)) (ode_example (\<lambda>y t i. 0))) = [5]
   \<and> scalAbsoluteTolerance (bs_example (\<lambda>y t i. 0))
       + scalRelativeTolerance (bs_example (\<lambda>y t i. 0))
         * max \<bar>ode_y (ode_example (\<lambda>y t i. 0)) ! 0\<bar> \<bar>ode_y (ode_example (\<lambda>y t i. 0)) ! 0\<bar> = 7
   \<and> ode_scale (rescale (bs_example (\<lambda>y t i. 0)) (ode_example (\<lambda>y t i. 0))) = [5]
   \<and> scalAbsoluteTolerance (bs_example (\<lambda>y t i. 0))
       + scalRelativeTolerance (bs_example (\<lambda>y t i. 0))
         * max \<bar>ode_y (ode_example (\<lambda>y t i. 0)) ! 0\<bar> \<bar>ode_y1 (ode_example (\<lambda>y t i. 0)) ! 0\<bar> = 11"
  by (simp add: default_scale_as_called bs_example_tolerances ode_example_fields)

section \<open>BS: the extrapolation sweep\<close>

lemma extrapolate_row_prop:
  assumes "row < length D" "n \<le> length C" "n \<le> length (D ! row)"
  shows "fold (\<lambda>i (C, D). let CD = C ! i - D ! row ! i
                       in (C[i := facC * CD], D[row := (D ! row)[i := facD * CD]]))
          [0..<n] (C, D)
       = (map (\<lambda>i. if i < n then facC * (C ! i - D ! row ! i) else C ! i) [0..<length C],
          D[row := map (\<lambda>i. if i < n then facD * (C ! i - D ! row ! i) else D ! row ! i)
                       [0..<length (D ! row)]])"
  using assms
proof (induction n)
  case 0
  then show ?case by (simp add: map_nth)
next
  case (Suc n)
  then have n: "n < length C" "n < length (D ! row)" by simp_all
  have 1: "(map (\<lambda>i. if i < n then facC * (C ! i - D ! row ! i) else C ! i) [0..<length C])
             [n := facC * (C ! n - D ! row ! n)]
           = map (\<lambda>i. if i < Suc n then facC * (C ! i - D ! row ! i) else C ! i) [0..<length C]"
    using n by (intro nth_equalityI) (auto simp: nth_list_update less_Suc_eq)
  have 2: "(map (\<lambda>i. if i < n then facD * (C ! i - D ! row ! i) else D ! row ! i)
                       [0..<length (D ! row)])[n := facD * (C ! n - D ! row ! n)]
           = map (\<lambda>i. if i < Suc n then facD * (C ! i - D ! row ! i) else D ! row ! i)
                       [0..<length (D ! row)]"
    using n by (intro nth_equalityI) (auto simp: nth_list_update less_Suc_eq)
  show ?case
    using Suc n by (simp add: Let_def 1 2)
qed


lemma fold_pointwise:
  "n \<le> length xs \<Longrightarrow>
   fold (\<lambda>i xs. xs[i := g i (xs ! i)]) [0..<n] xs
   = map (\<lambda>i. if i < n then g i (xs ! i) else xs ! i) [0..<length xs]"
proof (induction n)
  case 0
  then show ?case by (simp add: map_nth)
next
  case (Suc n)
  then have n: "n < length xs" by simp
  have "(map (\<lambda>i. if i < n then g i (xs ! i) else xs ! i) [0..<length xs])[n := g n (xs ! n)]
        = map (\<lambda>i. if i < Suc n then g i (xs ! i) else xs ! i) [0..<length xs]"
    using n by (intro nth_equalityI) (auto simp: nth_list_update less_Suc_eq)
  with Suc n show ?case by simp
qed

text \<open>Tableau and scratch column are large enough for the state vector.\<close>

lemma extrapolate_row_component:
  assumes "row < length D" "len \<le> length C" "len \<le> length (D ! row)" "i < len"
      and "extrapolate_row facC facD row len (C, D) = (C', D')"
  shows "C' ! i = facC * (C ! i - D ! row ! i)"
    and "column D' i = (column D i)[row := facD * (C ! i - D ! row ! i)]"
    and "length C' = length C" and "length D' = length D"
    and "\<And>r. r < length D \<Longrightarrow> length (D' ! r) = length (D ! r)"
proof -
  have C': "C' = map (\<lambda>i. if i < len then facC * (C ! i - D ! row ! i) else C ! i) [0..<length C]"
   and D': "D' = D[row := map (\<lambda>i. if i < len then facD * (C ! i - D ! row ! i) else D ! row ! i)
                       [0..<length (D ! row)]]"
    using assms(5) extrapolate_row_prop[OF assms(1,2,3), of facC facD]
    by (simp_all add: extrapolate_row_def)
  show "C' ! i = facC * (C ! i - D ! row ! i)" using assms by (simp add: C')
  show "column D' i = (column D i)[row := facD * (C ! i - D ! row ! i)]"
    using assms by (simp add: D' column_def map_update)
  show "length C' = length C" by (simp add: C')
  show "length D' = length D" by (simp add: D')
  show "\<And>r. r < length D \<Longrightarrow> length (D' ! r) = length (D ! r)"
    using assms(1) by (auto simp: D' nth_list_update)
qed

lemma extrapolate_sweep_component:
  assumes "k < length D" "len \<le> length C" "\<forall>r<length D. len \<le> length (D ! r)" "i < len"
      and "\<forall>j\<in>set js. j < k"
      and "fold (\<lambda>j. let xi = cf ! (k - j - 1); xim1 = cf ! k;
                        facC = xi / (xi - xim1); facD = xim1 / (xi - xim1)
                    in extrapolate_row facC facD (k - j - 1) len) js (C, D) = (C', D')"
  shows "(C' ! i, column D' i) = fold (neville_step cf k) js (C ! i, column D i)
       \<and> length D' = length D"
  using assms
proof (induction js arbitrary: C D)
  case Nil
  then show ?case by simp
next
  case (Cons j js)
  let ?row = "k - j - 1"
  let ?facC = "cf ! ?row / (cf ! ?row - cf ! k)" and ?facD = "cf ! k / (cf ! ?row - cf ! k)"
  obtain C1 D1 where r: "extrapolate_row ?facC ?facD ?row len (C, D) = (C1, D1)"
    by (cases "extrapolate_row ?facC ?facD ?row len (C, D)") auto
  have row: "?row < length D" using Cons.prems(1) by simp
  have lr: "len \<le> length (D ! ?row)" using Cons.prems(3) row by simp
  note rc = extrapolate_row_component[OF row Cons.prems(2) lr Cons.prems(4) r]
  have f: "fold (\<lambda>j. let xi = cf ! (k - j - 1); xim1 = cf ! k;
                        facC = xi / (xi - xim1); facD = xim1 / (xi - xim1)
                    in extrapolate_row facC facD (k - j - 1) len) js (C1, D1) = (C', D')"
    using Cons.prems(6) r by (simp add: Let_def)
  have "(C' ! i, column D' i) = fold (neville_step cf k) js (C1 ! i, column D1 i)
        \<and> length D' = length D1"
    by (rule Cons.IH[OF _ _ _ Cons.prems(4) _ f])
       (use Cons.prems rc in \<open>simp_all\<close>)
  moreover have "(C1 ! i, column D1 i) = neville_step cf k j (C ! i, column D i)"
    using rc(1,2) row by (simp add: neville_step_def Let_def column_def)
  ultimately show ?case using rc(4) by simp
qed

lemma extrapolate_sum_nth:
  assumes "len \<le> length y1" "i < len"
  shows "extrapolate_sum D k len y1 ! i = (\<Sum>j\<le>k. D ! j ! i)"
proof -
  have inner: "fold (\<lambda>i y1. y1[i := y1 ! i + D ! j ! i]) [0..<len] ys
      = map (\<lambda>i. if i < len then ys ! i + D ! j ! i else ys ! i) [0..<length ys]"
    if "len \<le> length ys" for j and ys :: "real list"
    using that by (rule fold_pointwise[where g = "\<lambda>i v. v + D ! j ! i"])
  have outer: "length (fold (\<lambda>j. fold (\<lambda>i y1. y1[i := y1 ! i + D ! j ! i]) [0..<len]) js ys)
                 = length ys
             \<and> fold (\<lambda>j. fold (\<lambda>i y1. y1[i := y1 ! i + D ! j ! i]) [0..<len]) js ys ! i
                 = ys ! i + (\<Sum>j\<leftarrow>js. D ! j ! i)"
    if "len \<le> length ys" for js ys
    using that
  proof (induction js arbitrary: ys)
    case Nil
    then show ?case by simp
  next
    case (Cons j js)
    let ?ys1 = "map (\<lambda>i. if i < len then ys ! i + D ! j ! i else ys ! i) [0..<length ys]"
    have "len \<le> length ?ys1" using Cons.prems by simp
    from Cons.IH[OF this] Cons.prems assms(2) show ?case
      by (simp add: inner)
  qed
  let ?y0 = "fold (\<lambda>i y1. y1[i := D ! 0 ! i]) [0..<len] y1"
  have y0: "?y0 = map (\<lambda>i. if i < len then D ! 0 ! i else y1 ! i) [0..<length y1]"
    using assms(1) by (rule fold_pointwise[where g = "\<lambda>i v. D ! 0 ! i"])
  have "len \<le> length ?y0" using assms(1) by (simp add: y0)
  from outer[OF this, of "[1..<k + 1]"]
  have "extrapolate_sum D k len y1 ! i = ?y0 ! i + (\<Sum>j\<leftarrow>[1..<k + 1]. D ! j ! i)"
    by (simp add: extrapolate_sum_def)
  also have "?y0 ! i = D ! 0 ! i" using assms by (simp add: y0)
  also have "(\<Sum>j\<leftarrow>[1..<k + 1]. D ! j ! i) = (\<Sum>j = 1..<k + 1. D ! j ! i)"
    by (simp only: sum_set_upt_conv_sum_list_nat[symmetric] set_upt)
  also have "D ! 0 ! i + (\<Sum>j = 1..<k + 1. D ! j ! i) = (\<Sum>j\<le>k. D ! j ! i)"
  proof -
    have "{..k} = insert 0 {1..<k + 1}" by auto
    then show ?thesis by simp
  qed
  finally show ?thesis .
qed



text \<open>
  Claim C7. When the tableau has a row \<open>k\<close> and the buffers have room for the state
  vector, then for every component \<open>i\<close> the sweep of \<^verbatim>\<open>extrapolate\<close> leaves in \<^verbatim>\<open>C[i]\<close>
  and in the column \<^verbatim>\<open>D[.][i]\<close> what the updates of the specification give for that
  component, and \<^verbatim>\<open>y1[i]\<close> is the sum of the rows \<open>0, ..., k\<close> of the tableau after the
  sweep.
\<close>

theorem extrapolate_neville:
  assumes ok: "tableau_ok st k" and i: "i < ode_length st"
  shows "(ode_C (extrapolate st cf k) ! i, column (ode_D (extrapolate st cf k)) i)
           = neville_component cf k (ode_C st ! i, column (ode_D st) i)
       \<and> ode_y1 (extrapolate st cf k) ! i = (\<Sum>j\<le>k. ode_D (extrapolate st cf k) ! j ! i)"
proof -
  obtain C' D' where sw:
    "extrapolate_sweep cf k (ode_length st) (ode_C st, ode_D st) = (C', D')"
    by (cases "extrapolate_sweep cf k (ode_length st) (ode_C st, ode_D st)") auto
  have st': "extrapolate st cf k
             = st\<lparr>ode_C := C', ode_D := D',
                  ode_y1 := extrapolate_sum D' k (ode_length st) (ode_y1 st)\<rparr>"
    by (simp add: extrapolate_def sw)
  have rows: "\<forall>r<length (ode_D st). ode_length st \<le> length (ode_D st ! r)"
    using ok by (simp add: tableau_ok_def list_all_length)
  have "(C' ! i, column D' i) = fold (neville_step cf k) [0..<k] (ode_C st ! i, column (ode_D st) i)
        \<and> length D' = length (ode_D st)"
    by (rule extrapolate_sweep_component[OF _ _ rows i _ sw[unfolded extrapolate_sweep_def]])
       (use ok in \<open>simp_all add: tableau_ok_def\<close>)
  moreover have "extrapolate_sum D' k (ode_length st) (ode_y1 st) ! i = (\<Sum>j\<le>k. D' ! j ! i)"
    by (rule extrapolate_sum_nth) (use ok i in \<open>simp_all add: tableau_ok_def\<close>)
  ultimately show ?thesis
    by (simp add: st' neville_component_def)
qed


theorem extrapolate_neville_witness:
  "tableau_ok (ode_example (\<lambda>y t i. 0)) 1 \<and> 0 < ode_length (ode_example (\<lambda>y t i. 0))
   \<and> (ode_C (extrapolate (ode_example (\<lambda>y t i. 0)) [1 / 4, 1 / 36] 1) ! 0,
       column (ode_D (extrapolate (ode_example (\<lambda>y t i. 0)) [1 / 4, 1 / 36] 1)) 0)
       = neville_component [1 / 4, 1 / 36] 1
           (ode_C (ode_example (\<lambda>y t i. 0)) ! 0, column (ode_D (ode_example (\<lambda>y t i. 0))) 0)
   \<and> ode_y1 (extrapolate (ode_example (\<lambda>y t i. 0)) [1 / 4, 1 / 36] 1) ! 0
       = (\<Sum>j\<le>1. ode_D (extrapolate (ode_example (\<lambda>y t i. 0)) [1 / 4, 1 / 36] 1) ! j ! 0)"
  using extrapolate_neville [of "ode_example (\<lambda>y t i. 0)" 1 0 "[1 / 4, 1 / 36]"]
  by (simp add: tableau_ok_def ode_example_def)

text \<open>The same sweep evaluated: from the rows 1 and 2 the extrapolation with the
  coefficients 1/4 and 1/36 gives \<open>2 + (2 - 1) / 8\<close>.\<close>

lemma extrapolate_example:
  "ode_y1 (extrapolate (ode_example rhs) [1 / 4, 1 / 36] 1) = [17 / 8]"
  by (simp add: extrapolate_def extrapolate_sweep_def extrapolate_row_def extrapolate_sum_def
      ode_example_def Let_def)

section \<open>BS: the stability check of the modified midpoint method\<close>

lemma fold_add_sum: "fold (\<lambda>l (norm::real). norm + g l) xs a = a + sum_list (map g xs)"
  by (induction xs arbitrary: a) simp_all

lemma fold_norm_list:
  "fold (\<lambda>s norm. fold (\<lambda>l (norm::real). norm + g s l) [0..<len s] norm) sts a
   = a + (\<Sum>s\<leftarrow>sts. sum_list (map (g s) [0..<len s]))"
  by (induction sts arbitrary: a) (simp_all add: fold_add_sum)

lemma fold_norm:
  "fold (\<lambda>s norm. fold (\<lambda>l (norm::real). norm + g s l) [0..<len s] norm) sts a
   = a + (\<Sum>s\<leftarrow>sts. \<Sum>l<len s. g s l)"
proof -
  have "\<And>s. sum_list (map (g s) [0..<len s]) = (\<Sum>l<len s. g s l)"
    by (simp only: sum_set_upt_conv_sum_list_nat[symmetric] set_upt lessThan_atLeast0)
  then show ?thesis by (simp only: fold_norm_list)
qed

lemma initialNorm_sum: "initialNorm sts = norm_I sts"
  unfolding initialNorm_def norm_I_def Let_def power2_eq_square
  using fold_norm[of "\<lambda>s l. ode_y0Dot s ! l / ode_scale s ! l * (ode_y0Dot s ! l / ode_scale s ! l)"
                     ode_length sts 0]
  by simp

lemma deltaNorm_sum: "deltaNorm sts = norm_Delta sts"
  unfolding deltaNorm_def norm_Delta_def Let_def power2_eq_square
  using fold_norm[of "\<lambda>s l. (ode_yDot s ! l - ode_y0Dot s ! l) / ode_scale s ! l
                           * ((ode_yDot s ! l - ode_y0Dot s ! l) / ode_scale s ! l)"
                     ode_length sts 0]
  by simp

lemma midpoint_loop_returns_0:
  "fst (midpoint_loop k h js st) = False \<longleftrightarrow>
     (\<exists>m<length js. int (js ! m) \<le> maxChecks \<and> k < maxIter
                    \<and> unstable (snd ((midpoint_body h ^^ Suc m) st)))"
proof (induction js arbitrary: st)
  case Nil
  then show ?case by simp
next
  case (Cons j js)
  let ?st' = "midpoint_body h st"
  show ?case
  proof (cases "int j \<le> maxChecks \<and> k < maxIter \<and> unstable (snd ?st')")
    case True
    then have "fst (midpoint_loop k h (j # js) st) = False" by (simp add: Let_def)
    moreover have "\<exists>m<length (j # js). int ((j # js) ! m) \<le> maxChecks \<and> k < maxIter
                    \<and> unstable (snd ((midpoint_body h ^^ Suc m) st))"
      by (rule exI[of _ 0]) (use True in simp)
    ultimately show ?thesis by blast
  next
    case False
    have "fst (midpoint_loop k h (j # js) st) = fst (midpoint_loop k h js ?st')"
      by (simp only: midpoint_loop.simps Let_def False if_False)
    also have "\<dots> = False \<longleftrightarrow>
       (\<exists>m<length js. int (js ! m) \<le> maxChecks \<and> k < maxIter
                    \<and> unstable (snd ((midpoint_body h ^^ Suc m) ?st')))"
      by (rule Cons.IH)
    also have "\<dots> \<longleftrightarrow>
       (\<exists>m<length (j # js). int ((j # js) ! m) \<le> maxChecks \<and> k < maxIter
                    \<and> unstable (snd ((midpoint_body h ^^ Suc m) st)))"
      (is "?L \<longleftrightarrow> ?R")
    proof
      assume ?L
      then obtain m where "m < length js" "int (js ! m) \<le> maxChecks" "k < maxIter"
        "unstable (snd ((midpoint_body h ^^ Suc m) ?st'))" by blast
      then show ?R
        by (intro exI[of _ "Suc m"]) (simp add: funpow_swap1)
    next
      assume ?R
      then obtain m where m: "m < length (j # js)" "int ((j # js) ! m) \<le> maxChecks"
        "k < maxIter" "unstable (snd ((midpoint_body h ^^ Suc m) st))" by blast
      with False obtain m' where "m = Suc m'" by (cases m) auto
      with m show ?L
        by (intro exI[of _ m']) (simp add: funpow_swap1)
    qed
    finally show ?thesis .
  qed
qed


text \<open>
  Claim C6. For the midpoint method, \<^verbatim>\<open>tryStep\<close> returns 0 or 1. It returns 0 exactly
  if in some pass \<open>j\<close> of the loop (\<open>1 \<le> j < n\<close>) that is checked
  (\<open>j \<le> maxChecks = 1\<close> and \<open>k < maxIter = 2\<close>) the sums \<open>I\<close> and \<open>Delta\<close> over all
  states and components satisfy \<open>Delta > 4 * max(1e-15, I)\<close>, and it returns 1 exactly
  if there is no such pass.
\<close>

theorem tryStep_midpoint_stability:
  "maxChecks = 1 \<and> maxIter = 2
   \<and> ((\<exists>sts'. tryStep sts k n t0 step 1 = Inr (0, sts')) \<longleftrightarrow>
        (\<exists>j. 1 \<le> j \<and> int j < n \<and> int j \<le> maxChecks \<and> k < maxIter
             \<and> norm_Delta (midpoint_state (step / real_of_int n) t0 sts j)
                 > 4 * max (1 / 10 ^ 15) (norm_I (midpoint_state (step / real_of_int n) t0 sts j))))
   \<and> ((\<exists>sts'. tryStep sts k n t0 step 1 = Inr (1, sts')) \<longleftrightarrow>
        \<not> (\<exists>j. 1 \<le> j \<and> int j < n \<and> int j \<le> maxChecks \<and> k < maxIter
             \<and> norm_Delta (midpoint_state (step / real_of_int n) t0 sts j)
                 > 4 * max (1 / 10 ^ 15) (norm_I (midpoint_state (step / real_of_int n) t0 sts j))))"
proof -
  let ?h = "step / real_of_int n"
  let ?st0 = "(t0 + ?h, midpoint_first ?h (t0 + ?h) sts)"
  let ?bad = "\<exists>j. 1 \<le> j \<and> int j < n \<and> int j \<le> maxChecks \<and> k < maxIter
             \<and> norm_Delta (midpoint_state ?h t0 sts j)
                 > 4 * max (1 / 10 ^ 15) (norm_I (midpoint_state ?h t0 sts j))"
  obtain completed sts2 where l: "midpoint_loop k ?h [1..<nat n] ?st0 = (completed, sts2)"
    by (cases "midpoint_loop k ?h [1..<nat n] ?st0") auto
  have t: "tryStep sts k n t0 step 1
           = (if \<not> completed then Inr (0, sts2) else Inr (1, midpoint_last ?h sts2))"
    using l by (simp add: tryStep_def Let_def)
  have "completed = False \<longleftrightarrow>
     (\<exists>m<length [1..<nat n]. int ([1..<nat n] ! m) \<le> maxChecks \<and> k < maxIter
                    \<and> unstable (snd ((midpoint_body ?h ^^ Suc m) ?st0)))"
    by (rule midpoint_loop_returns_0[of k ?h "[1..<nat n]" ?st0, unfolded l fst_conv])
  also have "\<dots> \<longleftrightarrow> ?bad" (is "?L \<longleftrightarrow> _")
  proof
    assume ?L
    then obtain m where m: "m < length [1..<nat n]" "int ([1..<nat n] ! m) \<le> maxChecks"
      "k < maxIter" "unstable (snd ((midpoint_body ?h ^^ Suc m) ?st0))" by blast
    then have "[1..<nat n] ! m = Suc m" by simp
    with m show ?bad
      by (intro exI[of _ "Suc m"])
         (auto simp: midpoint_state_def unstable_def initialNorm_sum deltaNorm_sum)
  next
    assume ?bad
    then obtain j where j: "1 \<le> j" "int j < n" "int j \<le> maxChecks" "k < maxIter"
      "norm_Delta (midpoint_state ?h t0 sts j)
         > 4 * max (1 / 10 ^ 15) (norm_I (midpoint_state ?h t0 sts j))" by blast
    then obtain m where jm: "j = Suc m" by (cases j) auto
    have "m < length [1..<nat n]" using j jm by simp
    moreover have "[1..<nat n] ! m = Suc m" using j jm by simp
    ultimately show ?L using j jm
      by (intro exI[of _ m])
         (auto simp: midpoint_state_def unstable_def initialNorm_sum deltaNorm_sum)
  qed
  finally have c: "\<not> completed \<longleftrightarrow> ?bad" by simp
  show ?thesis
    unfolding t using c by (auto simp: maxChecks_def maxIter_def)
qed

lemma upt_Suc0_2: "[Suc 0..<2] = [Suc 0]"
  by (simp add: upt_rec)

lemma tryStep_unstable_example:
  "\<exists>sts'. tryStep [(ode_example (\<lambda>y t i. 10 * y ! i))\<lparr>ode_scale := [5], ode_y0Dot := [30]\<rparr>]
             0 2 0 1 1 = Inr (0, sts')"
  by (simp add: tryStep_def midpoint_first_def midpoint_body_def eval_derivatives_def
      unstable_def initialNorm_def deltaNorm_def ode_example_def Let_def upt_Suc0_2
      maxChecks_def maxIter_def)

theorem tryStep_midpoint_stability_witness:
  "(\<exists>sts'. tryStep [(ode_example (\<lambda>y t i. 10 * y ! i))\<lparr>ode_scale := [5], ode_y0Dot := [30]\<rparr>]
             0 2 0 1 1 = Inr (0, sts'))
   \<and> (\<exists>j. 1 \<le> j \<and> int j < 2 \<and> int j \<le> maxChecks \<and> (0::int) < maxIter
          \<and> norm_Delta (midpoint_state (1 / real_of_int 2) 0
                [(ode_example (\<lambda>y t i. 10 * y ! i))\<lparr>ode_scale := [5], ode_y0Dot := [30]\<rparr>] j)
             > 4 * max (1 / 10 ^ 15) (norm_I (midpoint_state (1 / real_of_int 2) 0
                [(ode_example (\<lambda>y t i. 10 * y ! i))\<lparr>ode_scale := [5], ode_y0Dot := [30]\<rparr>] j)))"
  using tryStep_midpoint_stability
          [of "[(ode_example (\<lambda>y t i. 10 * y ! i))\<lparr>ode_scale := [5], ode_y0Dot := [30]\<rparr>]"
              0 2 0 1]
        tryStep_unstable_example
  by blast

section \<open>MERCURANA: the composition schemes, proved\<close>

text \<open>
  Claim C8. For PMLF6, PMLF4 and PLF7_6_4 (and in fact for every scheme) the calls of the
  postprocessor are the calls of the preprocessor in reverse order, each with its drift,
  kick and jerk coefficient negated; for every scheme other than these three, neither
  processor makes any call.
\<close>

theorem postprocessor_reverses_preprocessor:
  "reb_integrator_mercurana_postprocessor T dt shell type
     = rev (map negated (reb_integrator_mercurana_preprocessor T dt shell type))
   \<and> (type \<notin> {REB_EOS_PMLF6, REB_EOS_PMLF4, REB_EOS_PLF7_6_4} \<longrightarrow>
        reb_integrator_mercurana_preprocessor T dt shell type = []
      \<and> reb_integrator_mercurana_postprocessor T dt shell type = [])"
  by (cases type)
     (simp_all add: reb_integrator_mercurana_preprocessor_def
        reb_integrator_mercurana_postprocessor_def rev_concat rev_map map_concat comp_def)

theorem postprocessor_reverses_preprocessor_witness:
  "REB_EOS_LF \<notin> {REB_EOS_PMLF6, REB_EOS_PMLF4, REB_EOS_PLF7_6_4}
   \<and> reb_integrator_mercurana_preprocessor
         \<lparr>reb_eos_pmlf6_z = [1, 2, 3, 4, 5, 6], reb_eos_pmlf6_y = [1, 2, 3, 4, 5, 6],
          reb_eos_pmlf6_v = [1, 2, 3, 4, 5, 6], reb_eos_pmlf4_y = [1, 2, 3],
          reb_eos_pmlf4_z = [1, 2, 3], reb_eos_plf7_6_4_z = [1, 2, 3, 4, 5, 6],
          reb_eos_plf7_6_4_y = [1, 2, 3, 4, 5, 6]\<rparr> 1 0 REB_EOS_LF = []
   \<and> reb_integrator_mercurana_postprocessor
         \<lparr>reb_eos_pmlf6_z = [1, 2, 3, 4, 5, 6], reb_eos_pmlf6_y = [1, 2, 3, 4, 5, 6],
          reb_eos_pmlf6_v = [1, 2, 3, 4, 5, 6], reb_eos_pmlf4_y = [1, 2, 3],
          reb_eos_pmlf4_z = [1, 2, 3], reb_eos_plf7_6_4_z = [1, 2, 3, 4, 5, 6],
          reb_eos_plf7_6_4_y = [1, 2, 3, 4, 5, 6]\<rparr> 1 0 REB_EOS_LF = []"
  using postprocessor_reverses_preprocessor
    [of "\<lparr>reb_eos_pmlf6_z = [1, 2, 3, 4, 5, 6], reb_eos_pmlf6_y = [1, 2, 3, 4, 5, 6],
          reb_eos_pmlf6_v = [1, 2, 3, 4, 5, 6], reb_eos_pmlf4_y = [1, 2, 3],
          reb_eos_pmlf4_z = [1, 2, 3], reb_eos_plf7_6_4_z = [1, 2, 3, 4, 5, 6],
          reb_eos_plf7_6_4_y = [1, 2, 3, 4, 5, 6]\<rparr>" 1 0 REB_EOS_LF]
  by simp

section \<open>MERCURANA: the switching function partitions each pair force\<close>

lemma pair_Lsum_telescope:
  assumes "shell < Nmaxshells r" "whsplitting r \<longrightarrow> shell = 1 \<longrightarrow> i \<noteq> 0"
  shows "pair_Lsum r shell i mi mj dr =
     (\<lambda>s. if s = 0 then 0 else if s < Nmaxshells r
           then L r dr (dcrit r ! s ! mi + dcrit r ! s ! mj) (dcrit r ! (s - 1) ! mi + dcrit r ! (s - 1) ! mj)
           else 1) (Suc shell)
   - (\<lambda>s. if s = 0 then 0 else if s < Nmaxshells r
           then L r dr (dcrit r ! s ! mi + dcrit r ! s ! mj) (dcrit r ! (s - 1) ! mi + dcrit r ! (s - 1) ! mj)
           else 1) shell"
  using assms by (auto simp: pair_Lsum_def Let_def)

text \<open>
  Claim C5. For a pair of particles \<open>mi\<close>, \<open>mj\<close> at distance \<open>dr\<close>, any table
  \<open>dcrit\<close> and any switching function \<open>L\<close>, the weights \<open>Lsum\<close> that the interaction
  step computes in the shells \<open>0, ..., Nmaxshells-1\<close> add up to exactly 1. \<open>idx shell\<close> is
  the loop index of the pair in that shell. The first part is the claim's formula: it
  is what the code computes unless the pair is the one that the Wisdom-Holman splitting
  treats specially (index 0 in shell 1). The second part is that special pair: shell 0
  skips it (the loops start at \<open>starti = 1\<close>), shell 1 subtracts nothing, and the weights
  of the shells \<open>1, ..., Nmaxshells-1\<close> again add up to 1.
\<close>

theorem Lsum_partition:
  "(0 < Nmaxshells r \<and> (whsplitting r \<longrightarrow> idx 1 \<noteq> 0) \<longrightarrow>
      (\<Sum>shell<Nmaxshells r. pair_Lsum r shell (idx shell) mi mj dr) = 1)
   \<and> (1 < Nmaxshells r \<and> whsplitting r \<and> idx 1 = 0 \<longrightarrow>
      (\<Sum>shell = 1..<Nmaxshells r. pair_Lsum r shell (idx shell) mi mj dr) = 1)"
proof (intro conjI impI)
  let ?B = "(\<lambda>s. if s = 0 then 0 else if s < Nmaxshells r
           then L r dr (dcrit r ! s ! mi + dcrit r ! s ! mj) (dcrit r ! (s - 1) ! mi + dcrit r ! (s - 1) ! mj)
           else (1::real))"
  assume a: "0 < Nmaxshells r \<and> (whsplitting r \<longrightarrow> idx 1 \<noteq> 0)"
  have "(\<Sum>shell<Nmaxshells r. pair_Lsum r shell (idx shell) mi mj dr)
        = (\<Sum>shell<Nmaxshells r. ?B (Suc shell) - ?B shell)"
    by (rule sum.cong[OF refl]) (use a in \<open>simp add: pair_Lsum_telescope\<close>)
  also have "\<dots> = ?B (Nmaxshells r) - ?B 0"
    by (rule sum_lessThan_telescope)
  also have "\<dots> = 1" using a by simp
  finally show "(\<Sum>shell<Nmaxshells r. pair_Lsum r shell (idx shell) mi mj dr) = 1" .
next
  let ?B = "(\<lambda>s. if s \<le> 1 then 0 else if s < Nmaxshells r
           then L r dr (dcrit r ! s ! mi + dcrit r ! s ! mj) (dcrit r ! (s - 1) ! mi + dcrit r ! (s - 1) ! mj)
           else (1::real))"
  assume a: "1 < Nmaxshells r \<and> whsplitting r \<and> idx 1 = 0"
  have "(\<Sum>shell = 1..<Nmaxshells r. pair_Lsum r shell (idx shell) mi mj dr)
        = (\<Sum>shell = 1..<Nmaxshells r. ?B (Suc shell) - ?B shell)"
    by (rule sum.cong[OF refl]) (use a in \<open>auto simp add: pair_Lsum_def Let_def\<close>)
  also have "\<dots> = ?B (Nmaxshells r) - ?B 1"
    by (rule sum_Suc_diff') (use a in simp)
  also have "\<dots> = 1" using a by simp
  finally show "(\<Sum>shell = 1..<Nmaxshells r. pair_Lsum r shell (idx shell) mi mj dr) = 1" .
qed

theorem Lsum_partition_witness:
  "\<not> whsplitting two_body \<and> 0 < Nmaxshells two_body
   \<and> (\<Sum>shell<Nmaxshells two_body. pair_Lsum two_body shell 0 0 1 3) = 1
   \<and> whsplitting two_body_wh \<and> 1 < Nmaxshells two_body_wh
   \<and> (\<Sum>shell = 1..<Nmaxshells two_body_wh. pair_Lsum two_body_wh shell 0 0 1 3) = 1"
  using Lsum_partition [of two_body "\<lambda>s. 0" 0 1 3] Lsum_partition [of two_body_wh "\<lambda>s. 0" 0 1 3]
  by (simp add: two_body_def two_body_wh_def)

section \<open>MERCURANA: shells after the encounter prediction\<close>

lemma fold_set_length [simp]:
  "length (fold (\<lambda>i ins. ins[g i := c]) is ins) = length ins"
  by (induction "is" arbitrary: ins) auto

lemma fold_set_nth:
  "m < length ins \<Longrightarrow>
   fold (\<lambda>i ins. ins[g i := c]) is ins ! m = (if m \<in> g ` set is then c else ins ! m)"
proof (induction "is" arbitrary: ins)
  case Nil
  then show ?case by simp
next
  case (Cons i "is")
  show ?case
    using Cons.IH[of "ins[g i := c]"] Cons.prems
    by (auto simp: nth_list_update)
qed




lemma take_conv_map_nth: "N \<le> length mp \<Longrightarrow> take N mp = map ((!) mp) [0..<N]"
  by (intro nth_equalityI) auto


lemma distinct_take_inj: "N \<le> length mp \<Longrightarrow> distinct (take N mp) \<Longrightarrow> inj_on ((!) mp) {..<N}"
  by (auto simp: inj_on_def distinct_conv_nth)












lemma two_body_ok: "shell_ok two_body_wh 0" "subshell_ok two_body_wh 0"
   "shell_ok two_body 0" "subshell_ok two_body 0"
  by (simp_all add: two_body_def two_body_wh_def shell_ok_def subshell_ok_def shell_members_def)

lemma upt_2: "[0..<2] = [0, 1]" "[1..<2] = [1]" "[2..<2] = []"
  by (simp_all add: upt_rec)






section \<open>MERCURANA: the interaction step conserves momentum\<close>

lemma smult_add_right: "smult a (u + v) = smult a u + smult a v"
  by (simp add: smult_def plus_vec3_def algebra_simps)

lemma smult_add_left: "smult (a + b) u = smult a u + smult b u"
  by (simp add: smult_def plus_vec3_def algebra_simps)

lemma smult_smult: "smult a (smult b u) = smult (a * b) u"
  by (simp add: smult_def)

lemma smult_minus_right: "smult a (- u) = - smult a u"
  by (simp add: smult_def uminus_vec3_def)

lemma smult_minus_left: "smult (- a) u = - smult a u"
  by (simp add: smult_def uminus_vec3_def)

lemma smult_zero_right [simp]: "smult a 0 = 0"
  by (simp add: smult_def zero_vec3_def)

lemma smult_sum: "smult a (sum q A) = (\<Sum>k\<in>A. smult a (q k))"
  by (induction A rule: infinite_finite_induct) (simp_all add: smult_add_right)

lemma fold_inv:
  "I s \<Longrightarrow> (\<And>x s. x \<in> set xs \<Longrightarrow> I s \<Longrightarrow> I (f x s)) \<Longrightarrow> I (fold f xs s)"
  by (induction xs arbitrary: s) auto

lemma sig_loop_inv:
  "I s \<Longrightarrow> (\<And>x s. x \<in> set xs \<Longrightarrow> I s \<Longrightarrow> I (body x s)) \<Longrightarrow> I (fst (sig_loop sg body xs s))"
  by (induction xs arbitrary: s) auto

lemma wsum_two_updates:
  fixes q q' :: "nat \<Rightarrow> vec3"
  assumes "i < N" "j < N" "i \<noteq> j"
      and "\<And>k. k < N \<Longrightarrow> q' k = q k + ((if k = i then a else 0) + (if k = j then b else 0))"
  shows "(\<Sum>k<N. smult (w k) (q' k)) = (\<Sum>k<N. smult (w k) (q k)) + (smult (w i) a + smult (w j) b)"
proof -
  have "(\<Sum>k<N. smult (w k) (q' k))
        = (\<Sum>k<N. smult (w k) (q k) + ((if k = i then smult (w k) a else 0)
                                       + (if k = j then smult (w k) b else 0)))"
    by (rule sum.cong[OF refl]) (simp add: assms(4) smult_add_right)
  also have "\<dots> = (\<Sum>k<N. smult (w k) (q k)) + ((\<Sum>k<N. if k = i then smult (w k) a else 0)
                                       + (\<Sum>k<N. if k = j then smult (w k) b else 0))"
    by (simp add: sum.distrib)
  also have "\<dots> = (\<Sum>k<N. smult (w k) (q k)) + (smult (w i) a + smult (w j) b)"
    using assms(1,2) by (simp add: sum.delta)
  finally show ?thesis .
qed

lemma add_acc_length [simp]: "length (add_acc m a ps) = length ps"
  by (simp add: add_acc_def)

lemma add_acc_fields [simp]:
  "k < length ps \<Longrightarrow> mass (add_acc m a ps ! k) = mass (ps ! k)"
  "k < length ps \<Longrightarrow> vel (add_acc m a ps ! k) = vel (ps ! k)"
  "k < length ps \<Longrightarrow> pos (add_acc m a ps ! k) = pos (ps ! k)"
  by (cases "m < length ps"; simp add: add_acc_def nth_list_update list_update_beyond)+

lemma add_acc_acc:
  "k < length ps \<Longrightarrow> acc (add_acc m a ps ! k) = acc (ps ! k) + (if k = m then a else 0)"
  by (cases "m < length ps"; simp add: add_acc_def nth_list_update list_update_beyond)

text \<open>The acceleration loops keep the sizes, the masses, positions and velocities, and
  the mass-weighted sum of the accelerations over the shell.\<close>

lemma acc_pair_active_keeps:
  assumes "mi < length ps" "mj < length ps"
  shows "length (acc_pair_active r shell i mi mj ps) = length ps"
    and "\<And>k. k < length ps \<Longrightarrow> mass (acc_pair_active r shell i mi mj ps ! k) = mass (ps ! k)"
    and "\<And>k. k < length ps \<Longrightarrow> vel (acc_pair_active r shell i mi mj ps ! k) = vel (ps ! k)"
    and "\<And>k. k < length ps \<Longrightarrow> pos (acc_pair_active r shell i mi mj ps ! k) = pos (ps ! k)"
  by (simp_all add: acc_pair_active_def Let_def)

lemma acc_pair_active_antisymmetric:
  assumes "mi < length ps" "mj < length ps" "mi \<noteq> mj"
  shows "smult (mass (ps ! mi)) (acc (acc_pair_active r shell i mi mj ps ! mi) - acc (ps ! mi))
       + smult (mass (ps ! mj)) (acc (acc_pair_active r shell i mi mj ps ! mj) - acc (ps ! mj)) = 0"
  using assms
  by (simp add: acc_pair_active_def Let_def add_acc_acc smult_smult)
     (simp add: smult_def plus_vec3_def zero_vec3_def minus_vec3_def)


lemma acc_pair_active_wsum:
  assumes i: "i < N" "j < N" "i \<noteq> j"
      and inj: "inj_on ((!) mp) {..<N}"
      and valid: "\<And>k. k < N \<Longrightarrow> mp ! k < length ps"
  shows "(\<Sum>k<N. smult (mass (acc_pair_active r shell i (mp ! i) (mp ! j) ps ! (mp ! k)))
                      (acc (acc_pair_active r shell i (mp ! i) (mp ! j) ps ! (mp ! k))))
       = (\<Sum>k<N. smult (mass (ps ! (mp ! k))) (acc (ps ! (mp ! k))))"
proof -
  let ?ps' = "acc_pair_active r shell i (mp ! i) (mp ! j) ps"
  define d where "d = pos (ps ! (mp ! i)) - pos (ps ! (mp ! j))"
  define prefact where
    "prefact = G r * pair_Lsum r shell i (mp ! i) (mp ! j) (sqrt (dot d d))
                 / (sqrt (dot d d) * sqrt (dot d d) * sqrt (dot d d))"
  let ?a = "smult (- prefact * mass (ps ! (mp ! j))) d"
  let ?b = "smult (prefact * mass (ps ! (mp ! i))) d"
  have eq: "\<And>k l. k < N \<Longrightarrow> l < N \<Longrightarrow> (mp ! k = mp ! l) = (k = l)"
    using inj by (auto simp: inj_on_def)
  have ps': "?ps' = add_acc (mp ! j) ?b (add_acc (mp ! i) ?a ps)"
    by (simp add: acc_pair_active_def Let_def d_def prefact_def)
  have q: "\<And>k. k < N \<Longrightarrow> acc (?ps' ! (mp ! k))
            = acc (ps ! (mp ! k)) + ((if k = i then ?a else 0) + (if k = j then ?b else 0))"
    unfolding ps' using valid i by (simp add: add_acc_acc eq add.assoc)
  have m: "\<And>k. k < N \<Longrightarrow> mass (?ps' ! (mp ! k)) = mass (ps ! (mp ! k))"
    unfolding ps' using valid by simp
  have "(\<Sum>k<N. smult (mass (?ps' ! (mp ! k))) (acc (?ps' ! (mp ! k))))
        = (\<Sum>k<N. smult (mass (ps ! (mp ! k))) (acc (?ps' ! (mp ! k))))"
    by (rule sum.cong[OF refl]) (simp add: m)
  also have "\<dots> = (\<Sum>k<N. smult (mass (ps ! (mp ! k))) (acc (ps ! (mp ! k))))
                  + (smult (mass (ps ! (mp ! i))) ?a + smult (mass (ps ! (mp ! j))) ?b)"
    by (rule wsum_two_updates[OF i]) (rule q)
  also have "smult (mass (ps ! (mp ! i))) ?a + smult (mass (ps ! (mp ! j))) ?b = 0"
    by (simp add: smult_def plus_vec3_def zero_vec3_def)
  finally show ?thesis by simp
qed

lemma add_jerk_length [simp]: "length (add_jerk i a jk) = length jk"
  by (simp add: add_jerk_def)

lemma add_jerk_nth:
  "k < length jk \<Longrightarrow> add_jerk i a jk ! k = jk ! k + (if k = i then a else 0)"
  by (simp add: add_jerk_def nth_list_update)

lemma jerk_pair_active_length [simp]:
  "length (jerk_pair_active r ps shell i j mi mj jk) = length jk"
  by (simp add: jerk_pair_active_def Let_def)

lemma jerk_pair_active_nth:
  assumes "k < length jk" "i \<noteq> j"
  shows "jerk_pair_active r ps shell i j mi mj jk ! k
       = jk ! k
       + ((if k = i then jerk_pair_active r ps shell i j mi mj jk ! i - jk ! i else 0)
        + (if k = j then jerk_pair_active r ps shell i j mi mj jk ! j - jk ! j else 0))"
  using assms by (simp add: jerk_pair_active_def Let_def add_jerk_nth)

lemma jerk_pair_active_antisymmetric:
  assumes "i < length jk" "j < length jk" "i \<noteq> j"
  shows "smult (mass (ps ! mi)) (jerk_pair_active r ps shell i j mi mj jk ! i - jk ! i)
       + smult (mass (ps ! mj)) (jerk_pair_active r ps shell i j mi mj jk ! j - jk ! j) = 0"
  using assms
  by (simp add: jerk_pair_active_def Let_def add_jerk_nth)
     (simp add: smult_def plus_vec3_def zero_vec3_def minus_vec3_def uminus_vec3_def
        algebra_simps)

lemma jerk_pair_active_wsum:
  assumes i: "i < N" "j < N" "i \<noteq> j" and len: "N \<le> length jk"
  shows "(\<Sum>k<N. smult (mass (ps ! (mp ! k)))
                      (jerk_pair_active r ps shell i j (mp ! i) (mp ! j) jk ! k))
       = (\<Sum>k<N. smult (mass (ps ! (mp ! k))) (jk ! k))"
proof -
  let ?jk' = "jerk_pair_active r ps shell i j (mp ! i) (mp ! j) jk"
  have "(\<Sum>k<N. smult (mass (ps ! (mp ! k))) (?jk' ! k))
        = (\<Sum>k<N. smult (mass (ps ! (mp ! k))) (jk ! k))
          + (smult (mass (ps ! (mp ! i))) (?jk' ! i - jk ! i)
           + smult (mass (ps ! (mp ! j))) (?jk' ! j - jk ! j))"
    by (rule wsum_two_updates[OF i]) (use len i in \<open>simp add: jerk_pair_active_nth[of _ jk i j]\<close>)
  also have "smult (mass (ps ! (mp ! i))) (?jk' ! i - jk ! i)
           + smult (mass (ps ! (mp ! j))) (?jk' ! j - jk ! j) = 0"
    by (rule jerk_pair_active_antisymmetric) (use i len in simp_all)
  finally show ?thesis by simp
qed


lemma fold_update_length [simp]:
  "length (fold (\<lambda>i ps. ps[g i := F i (ps ! g i)]) is ps) = length ps"
  by (induction "is" arbitrary: ps) auto

lemma fold_update_other:
  "m \<notin> g ` set is \<Longrightarrow> fold (\<lambda>i ps. ps[g i := F i (ps ! g i)]) is ps ! m = ps ! m"
  by (induction "is" arbitrary: ps) auto

lemma fold_update_nth_idx:
  assumes "distinct (map g is)" "\<forall>i\<in>set is. g i < length ps" "k \<in> set is"
  shows "fold (\<lambda>i ps. ps[g i := F i (ps ! g i)]) is ps ! g k = F k (ps ! g k)"
  using assms
proof (induction "is" arbitrary: ps)
  case Nil
  then show ?case by simp
next
  case (Cons i "is")
  let ?ps1 = "ps[g i := F i (ps ! g i)]"
  have d: "distinct (map g is)" and ni: "g i \<notin> g ` set is" using Cons.prems(1) by auto
  have l: "\<forall>i\<in>set is. g i < length ?ps1" using Cons.prems(2) by simp
  show ?case
  proof (cases "k = i")
    case True
    then show ?thesis using ni Cons.prems(2) by (simp add: fold_update_other)
  next
    case False
    then have k: "k \<in> set is" using Cons.prems(3) by simp
    have "g k \<noteq> g i" using ni k by (auto simp: image_iff)
    then show ?thesis using Cons.IH[OF d l k] by simp
  qed
qed

lemma interaction_step_keeps_momentum:
  assumes ok: "shell_ok r shell"
      and active: "shellN_active r ! shell = shellN r ! shell"
      and st: "starti r shell = 0"
      and jk: "shellN r ! shell \<le> length (jerk r)"
  shows "momentum (reb_integrator_mercurana_interaction_step sg r y v shell) shell
         = momentum r shell"
proof -
  let ?N = "shellN r ! shell" and ?mp = "shell_map r ! shell" and ?ps = "particles r"
  have N: "?N \<le> length ?mp" using ok by (simp add: shell_ok_def)
  have inj: "inj_on ((!) ?mp) {..<?N}"
    using ok N by (simp add: shell_ok_def shell_members_def distinct_take_inj)
  have dist: "distinct (map ((!) ?mp) [0..<?N])"
    using ok N by (simp add: shell_ok_def shell_members_def take_conv_map_nth)
  have valid: "\<And>k. k < ?N \<Longrightarrow> ?mp ! k < length ?ps"
    using ok N by (simp add: shell_ok_def shell_members_def take_conv_map_nth list_all_iff)
  txt \<open>Momentum depends on masses and velocities of the shell only.\<close>
  have mom: "momentum r' shell = momentum r shell"
    if "shellN r' = shellN r" "shell_map r' = shell_map r"
       "\<And>k. k < ?N \<Longrightarrow> mass (particles r' ! (?mp ! k)) = mass (?ps ! (?mp ! k))
                       \<and> vel (particles r' ! (?mp ! k)) = vel (?ps ! (?mp ! k))"
    for r' :: reb_simulation
    unfolding momentum_def by (simp add: that)
  let ?W = "\<lambda>ps'. (\<Sum>k<?N. smult (mass (ps' ! (?mp ! k))) (acc (ps' ! (?mp ! k))))"
  let ?I = "\<lambda>ps'. length ps' = length ?ps
        \<and> (\<forall>k<length ?ps. mass (ps' ! k) = mass (?ps ! k) \<and> vel (ps' ! k) = vel (?ps ! k)
              \<and> pos (ps' ! k) = pos (?ps ! k))
        \<and> ?W ps' = 0"
  define ps0 where "ps0 = fold (\<lambda>i ps. ps[?mp ! i := (ps ! (?mp ! i))\<lparr>acc := 0\<rparr>]) [0..<?N] ?ps"
  have I0: "?I ps0"
  proof (intro conjI allI impI)
    show "length ps0 = length ?ps"
      unfolding ps0_def by (rule fold_update_length[where F = "\<lambda>i p. p\<lparr>acc := 0\<rparr>"])
    have z: "\<And>k. k < ?N \<Longrightarrow> ps0 ! (?mp ! k) = (?ps ! (?mp ! k))\<lparr>acc := 0\<rparr>"
      unfolding ps0_def
      by (rule fold_update_nth_idx[where F = "\<lambda>i p. p\<lparr>acc := 0\<rparr>", OF dist])
         (use valid in auto)
    show "?W ps0 = 0" by (simp add: z)
    fix k assume k: "k < length ?ps"
    have "mass (ps0 ! k) = mass (?ps ! k) \<and> vel (ps0 ! k) = vel (?ps ! k)
              \<and> pos (ps0 ! k) = pos (?ps ! k)"
    proof (cases "k \<in> (!) ?mp ` set [0..<?N]")
      case True
      then obtain i where "i < ?N" "k = ?mp ! i" by auto
      then show ?thesis by (simp add: z)
    next
      case False
      then show ?thesis
        unfolding ps0_def
        by (simp only: fold_update_other[where F = "\<lambda>i p. p\<lparr>acc := 0\<rparr>"] simp_thms)
    qed
    then show "mass (ps0 ! k) = mass (?ps ! k)" "vel (ps0 ! k) = vel (?ps ! k)"
      "pos (ps0 ! k) = pos (?ps ! k)" by simp_all
  qed
  obtain ps1 ret1 where l1: "sig_loop (sg 1)
            (\<lambda>i. fold (\<lambda>j. acc_pair_active r shell i (?mp ! i) (?mp ! j)) [i + 1..<?N])
            [0..<?N] ps0 = (ps1, ret1)"
    by (cases "sig_loop (sg 1)
            (\<lambda>i. fold (\<lambda>j. acc_pair_active r shell i (?mp ! i) (?mp ! j)) [i + 1..<?N])
            [0..<?N] ps0") auto
  have step1: "?I (acc_pair_active r shell i (?mp ! i) (?mp ! j) ps)"
    if "i < ?N" "j < ?N" "i \<noteq> j" "?I ps" for i j and ps :: "reb_particle list"
  proof -
    have v: "\<And>k. k < ?N \<Longrightarrow> ?mp ! k < length ps" using valid that(4) by simp
    have "?W (acc_pair_active r shell i (?mp ! i) (?mp ! j) ps) = ?W ps"
      by (rule acc_pair_active_wsum[OF that(1,2,3) inj v])
    then show ?thesis
      using that v acc_pair_active_keeps[where mi = "?mp ! i" and mj = "?mp ! j" and ps = ps and r = r
          and shell = shell and i = i] by simp
  qed
  have "?I (fst (sig_loop (sg 1)
            (\<lambda>i. fold (\<lambda>j. acc_pair_active r shell i (?mp ! i) (?mp ! j)) [i + 1..<?N])
            [0..<?N] ps0))"
  proof (rule sig_loop_inv[where I = ?I, OF I0])
    fix i and ps :: "reb_particle list"
    assume i: "i \<in> set [0..<?N]" and I: "?I ps"
    show "?I (fold (\<lambda>j. acc_pair_active r shell i (?mp ! i) (?mp ! j)) [i + 1..<?N] ps)"
    proof (rule fold_inv[where I = ?I, OF I])
      fix j and ps' :: "reb_particle list"
      assume j: "j \<in> set [i + 1..<?N]" and I': "?I ps'"
      have "i < ?N" "j < ?N" "i \<noteq> j" using i j by simp_all
      then show "?I (acc_pair_active r shell i (?mp ! i) (?mp ! j) ps')"
        using I' by (rule step1)
    qed
  qed
  then have I1: "?I ps1" unfolding l1 fst_conv .
  have I1v: "\<And>k. k < ?N \<Longrightarrow> mass (ps1 ! (?mp ! k)) = mass (?ps ! (?mp ! k))
                       \<and> vel (ps1 ! (?mp ! k)) = vel (?ps ! (?mp ! k))"
    using I1 valid by simp
  have valid1: "\<forall>i\<in>set [0..<?N]. ?mp ! i < length ps1" using I1 valid by simp
  have W1: "?W ps1 = 0" using I1 by simp
  have lin: "(\<Sum>k<?N. smult (mass (?ps ! (?mp ! k)))
                 (vel (?ps ! (?mp ! k)) + (smult y (acc (ps1 ! (?mp ! k))) + smult v (q k))))
             = momentum r shell"
    if "(\<Sum>k<?N. smult (mass (?ps ! (?mp ! k))) (q k)) = 0" for q :: "nat \<Rightarrow> vec3"
  proof -
    have c: "\<And>m u a b. smult m (u + (smult y a + smult v b))
               = smult m u + (smult y (smult m a) + smult v (smult m b))"
      by (simp add: smult_def plus_vec3_def algebra_simps)
    have "(\<Sum>k<?N. smult (mass (?ps ! (?mp ! k)))
                 (vel (?ps ! (?mp ! k)) + (smult y (acc (ps1 ! (?mp ! k))) + smult v (q k))))
          = (\<Sum>k<?N. smult (mass (?ps ! (?mp ! k))) (vel (?ps ! (?mp ! k))))
            + ((\<Sum>k<?N. smult y (smult (mass (?ps ! (?mp ! k))) (acc (ps1 ! (?mp ! k)))))
               + (\<Sum>k<?N. smult v (smult (mass (?ps ! (?mp ! k))) (q k))))"
      by (simp only: c sum.distrib)
    also have "\<dots> = momentum r shell
            + (smult y (\<Sum>k<?N. smult (mass (?ps ! (?mp ! k))) (acc (ps1 ! (?mp ! k))))
               + smult v (\<Sum>k<?N. smult (mass (?ps ! (?mp ! k))) (q k)))"
      by (simp only: momentum_def smult_sum)
    also have "(\<Sum>k<?N. smult (mass (?ps ! (?mp ! k))) (acc (ps1 ! (?mp ! k)))) = ?W ps1"
      by (rule sum.cong[OF refl]) (simp add: I1v)
    finally show ?thesis using that W1 by simp
  qed
  have e1: "sig_loop (sg 1)
            (\<lambda>i. fold (\<lambda>j. acc_pair_active r shell i (?mp ! i) (?mp ! j)) [i + 1..<?N])
            [0..<?N]
            (fold (\<lambda>i ps. ps[?mp ! i := (ps ! (?mp ! i))\<lparr>acc := 0\<rparr>]) [0..<?N] ?ps)
           = (ps1, ret1)"
    using l1 by (simp only: ps0_def)
  show ?thesis
  proof (cases ret1)
    case True
    then have "reb_integrator_mercurana_interaction_step sg r y v shell = r\<lparr>particles := ps1\<rparr>"
      unfolding reb_integrator_mercurana_interaction_step_def Let_def active st e1 by simp
    moreover have "momentum (r\<lparr>particles := ps1\<rparr>) shell = momentum r shell"
      by (rule mom) (simp_all add: I1v)
    ultimately show ?thesis by simp
  next
    case r1: False
    show ?thesis
    proof (cases "v = 0")
      case True
      have "reb_integrator_mercurana_interaction_step sg r y v shell
            = r\<lparr>particles := kick ?mp ?N y ps1\<rparr>"
        unfolding reb_integrator_mercurana_interaction_step_def Let_def active st e1
        using r1 True by simp
      moreover have k: "\<And>k. k < ?N \<Longrightarrow> kick ?mp ?N y ps1 ! (?mp ! k)
            = (ps1 ! (?mp ! k))\<lparr>vel := vel (ps1 ! (?mp ! k)) + smult y (acc (ps1 ! (?mp ! k)))\<rparr>"
        unfolding kick_def Let_def
        by (rule fold_update_nth_idx[where F = "\<lambda>i p. p\<lparr>vel := vel p + smult y (acc p)\<rparr>",
              OF dist valid1]) simp
      ultimately show ?thesis
        using lin[of "\<lambda>k. 0"] by (simp add: momentum_def k I1v)
    next
      case False
      define jk0 where "jk0 = fold (\<lambda>j jk. jk[j := 0]) [0..<?N] (jerk r)"
      let ?J = "\<lambda>jk'. (\<Sum>k<?N. smult (mass (ps1 ! (?mp ! k))) (jk' ! k))"
      let ?IJ = "\<lambda>jk'. length jk' = length (jerk r) \<and> ?J jk' = 0"
      have "length jk0 = length (jerk r)"
        unfolding jk0_def by (rule fold_set_length[where g = "\<lambda>j. j"])
      moreover have "\<And>k. k < ?N \<Longrightarrow> jk0 ! k = 0"
        unfolding jk0_def using jk by (simp add: fold_set_nth[where g = "\<lambda>j. j"])
      ultimately have J0: "?IJ jk0" by simp
      obtain jk1 ret3 where l3: "sig_loop (sg 3)
            (\<lambda>i. fold (\<lambda>j. jerk_pair_active r ps1 shell i j (?mp ! i) (?mp ! j)) [i + 1..<?N])
            [0..<?N] jk0 = (jk1, ret3)"
        by (cases "sig_loop (sg 3)
            (\<lambda>i. fold (\<lambda>j. jerk_pair_active r ps1 shell i j (?mp ! i) (?mp ! j)) [i + 1..<?N])
            [0..<?N] jk0") auto
      have "?IJ (fst (sig_loop (sg 3)
            (\<lambda>i. fold (\<lambda>j. jerk_pair_active r ps1 shell i j (?mp ! i) (?mp ! j)) [i + 1..<?N])
            [0..<?N] jk0))"
      proof (rule sig_loop_inv[where I = ?IJ, OF J0])
        fix i and jk' :: "vec3 list"
        assume i: "i \<in> set [0..<?N]" and I: "?IJ jk'"
        show "?IJ (fold (\<lambda>j. jerk_pair_active r ps1 shell i j (?mp ! i) (?mp ! j)) [i + 1..<?N] jk')"
        proof (rule fold_inv[where I = ?IJ, OF I])
          fix j and jk'' :: "vec3 list"
          assume j: "j \<in> set [i + 1..<?N]" and I': "?IJ jk''"
          have ij: "i < ?N" "j < ?N" "i \<noteq> j" using i j by simp_all
          have "?N \<le> length jk''" using I' jk by simp
          from jerk_pair_active_wsum[OF ij this, of ps1 ?mp r shell] I'
          show "?IJ (jerk_pair_active r ps1 shell i j (?mp ! i) (?mp ! j) jk'')" by simp
        qed
      qed
      then have J1: "?IJ jk1" unfolding l3 fst_conv .
      have e3: "sig_loop (sg 3)
            (\<lambda>i. fold (\<lambda>j. jerk_pair_active r ps1 shell i j (?mp ! i) (?mp ! j)) [i + 1..<?N])
            [0..<?N] (fold (\<lambda>j jk. jk[j := 0]) [0..<?N] (jerk r)) = (jk1, ret3)"
        using l3 by (simp only: jk0_def)
      show ?thesis
      proof (cases ret3)
        case True
        have "reb_integrator_mercurana_interaction_step sg r y v shell
              = r\<lparr>particles := ps1, jerk := jk1\<rparr>"
          unfolding reb_integrator_mercurana_interaction_step_def Let_def active st e1
          using r1 False True e3 by simp
        moreover have "momentum (r\<lparr>particles := ps1, jerk := jk1\<rparr>) shell = momentum r shell"
          by (rule mom) (simp_all add: I1v)
        ultimately show ?thesis by simp
      next
        case r3: False
        have "reb_integrator_mercurana_interaction_step sg r y v shell
              = r\<lparr>particles := kick_jerk ?mp ?N y v jk1 ps1, jerk := jk1\<rparr>"
          unfolding reb_integrator_mercurana_interaction_step_def Let_def active st e1
          using r1 False r3 e3 by simp
        moreover have k: "\<And>k. k < ?N \<Longrightarrow> kick_jerk ?mp ?N y v jk1 ps1 ! (?mp ! k)
              = (ps1 ! (?mp ! k))\<lparr>vel := vel (ps1 ! (?mp ! k))
                     + (smult y (acc (ps1 ! (?mp ! k))) + smult v (jk1 ! k))\<rparr>"
          unfolding kick_jerk_def Let_def
          by (rule fold_update_nth_idx[where
                F = "\<lambda>i p. p\<lparr>vel := vel p + (smult y (acc p) + smult v (jk1 ! i))\<rparr>",
                OF dist valid1]) simp
        moreover have "(\<Sum>k<?N. smult (mass (?ps ! (?mp ! k))) (jk1 ! k)) = 0"
          using J1 by (simp add: I1v)
        ultimately show ?thesis
          using lin[of "\<lambda>k. jk1 ! k"] by (simp add: momentum_def k I1v)
      qed
    qed
  qed
qed

text \<open>
  Claim C10. One execution of the body of the first acceleration loop changes the
  accelerations of the two particles \<open>mi \<noteq> mj\<close> by amounts whose mass-weighted sum is
  zero, and one execution of the body of the first jerk loop does the same to the two
  jerk entries. Therefore, in a shell in which every particle is active and the pair
  loops start at index 0, the interaction step leaves the total momentum of the shell
  unchanged, with or without jerk, and also when \<^verbatim>\<open>reb_sigint\<close> makes it return early.
\<close>

theorem interaction_step_momentum_conserved:
  "(mi < length ps \<and> mj < length ps \<and> mi \<noteq> mj \<longrightarrow>
      smult (mass (ps ! mi)) (acc (acc_pair_active r shell i mi mj ps ! mi) - acc (ps ! mi))
    + smult (mass (ps ! mj)) (acc (acc_pair_active r shell i mi mj ps ! mj) - acc (ps ! mj)) = 0)
   \<and> (i < length jk \<and> j < length jk \<and> i \<noteq> j \<longrightarrow>
      smult (mass (ps ! mi)) (jerk_pair_active r ps shell i j mi mj jk ! i - jk ! i)
    + smult (mass (ps ! mj)) (jerk_pair_active r ps shell i j mi mj jk ! j - jk ! j) = 0)
   \<and> (shell_ok r shell \<and> shellN_active r ! shell = shellN r ! shell \<and> starti r shell = 0
        \<and> shellN r ! shell \<le> length (jerk r) \<longrightarrow>
      momentum (reb_integrator_mercurana_interaction_step sg r y v shell) shell
        = momentum r shell)"
  using acc_pair_active_antisymmetric [where mi = mi and mj = mj and ps = ps and r = r
          and shell = shell and i = i]
        jerk_pair_active_antisymmetric [where i = i and j = j and jk = jk and ps = ps
          and mi = mi and mj = mj and r = r and shell = shell]
        interaction_step_keeps_momentum [where r = r and shell = shell and sg = sg
          and y = y and v = v]
  by blast

theorem interaction_step_momentum_conserved_witness:
  "(0::nat) < length (particles two_body) \<and> (1::nat) < length (particles two_body) \<and> (0::nat) \<noteq> 1
   \<and> smult (mass (particles two_body ! 0))
        (acc (acc_pair_active two_body 0 0 0 1 (particles two_body) ! 0)
          - acc (particles two_body ! 0))
     + smult (mass (particles two_body ! 1))
        (acc (acc_pair_active two_body 0 0 0 1 (particles two_body) ! 1)
          - acc (particles two_body ! 1)) = 0
   \<and> (0::nat) < length (jerk two_body) \<and> (1::nat) < length (jerk two_body)
   \<and> smult (mass (particles two_body ! 0))
        (jerk_pair_active two_body (particles two_body) 0 0 1 0 1 (jerk two_body) ! 0
          - jerk two_body ! 0)
     + smult (mass (particles two_body ! 1))
        (jerk_pair_active two_body (particles two_body) 0 0 1 0 1 (jerk two_body) ! 1
          - jerk two_body ! 1) = 0
   \<and> shell_ok two_body 0 \<and> shellN_active two_body ! 0 = shellN two_body ! 0
   \<and> starti two_body 0 = 0 \<and> shellN two_body ! 0 \<le> length (jerk two_body)
   \<and> momentum (reb_integrator_mercurana_interaction_step (\<lambda>k i. False) two_body 1 1 0) 0
        = momentum two_body 0"
  using interaction_step_momentum_conserved
          [where mi = 0 and mj = 1 and ps = "particles two_body" and r = two_body
             and shell = 0 and i = 0 and j = 1 and jk = "jerk two_body"
             and sg = "\<lambda>k i. False" and y = 1 and v = 1]
        two_body_ok
  by (simp add: two_body_def two_body_wh_def starti_def)

section \<open>BS: what the passes of the loop keep\<close>

lemma bs_loop_cases:
  assumes inv0: "I ri k"
      and step: "\<And>ri k ri'. I ri k \<Longrightarrow> k < sequence_length
                   \<Longrightarrow> loop_iteration ri t dt k = Inr (Inr ri') \<Longrightarrow> I ri' (Suc k)"
  shows "(\<forall>ex. bs_loop ri t dt k = Inr ex \<longrightarrow>
            (\<exists>ri' k'. I ri' k' \<and> k' < sequence_length
                      \<and> loop_iteration ri' t dt k' = Inr (Inl ex)))
       \<and> (\<forall>e. bs_loop ri t dt k = Inl e \<longrightarrow>
            (\<exists>ri' k'. I ri' k'
                      \<and> (if k' < sequence_length then loop_iteration ri' t dt k' = Inl e
                          else e = SequenceIndexOutOfBounds)))"
  using inv0
proof (induction "sequence_length - k" arbitrary: ri k)
  case 0
  then have "\<not> k < sequence_length" by simp
  then show ?case using "0.prems" by (subst bs_loop.simps, subst (2) bs_loop.simps) auto
next
  case (Suc n)
  then have True: "k < sequence_length" by simp
  show ?case
  proof (cases "loop_iteration ri t dt k")
    case (Inl e)
    then show ?thesis using True Suc.prems
      by (subst bs_loop.simps, subst (2) bs_loop.simps) auto
  next
    case (Inr r)
    show ?thesis
    proof (cases r)
      case (Inl ex)
      then show ?thesis using True Inr Suc.prems
        by (subst bs_loop.simps, subst (2) bs_loop.simps) auto
    next
      case r: (Inr ri')
      have I': "I ri' (Suc k)" by (rule step[OF Suc.prems True]) (simp add: Inr r)
      have n: "n = sequence_length - Suc k" using Suc.hyps(2) by simp
      note IH = Suc.hyps(1)[OF n I']
      have "bs_loop ri t dt k = bs_loop ri' t dt (Suc k)"
        using True Inr r by (subst bs_loop.simps) simp
      then show ?thesis using IH by simp
    qed
  qed
qed


lemma frame_eval_derivatives [simp]:
  "map ode_frame (eval_derivatives t sts) = map ode_frame sts"
  by (simp add: eval_derivatives_def ode_frame_def)

lemma frame_midpoint_first [simp]:
  "map ode_frame (midpoint_first h t sts) = map ode_frame sts"
  by (simp add: midpoint_first_def eval_derivatives_def ode_frame_def Let_def)

lemma frame_midpoint_body [simp]:
  "map ode_frame (snd (midpoint_body h st)) = map ode_frame (snd st)"
  by (cases st) (simp add: midpoint_body_def eval_derivatives_def ode_frame_def Let_def)

lemma frame_midpoint_loop [simp]:
  "map ode_frame (snd (midpoint_loop k h js st)) = map ode_frame (snd st)"
  by (induction js arbitrary: st) (simp_all add: Let_def)

lemma frame_midpoint_last [simp]:
  "map ode_frame (midpoint_last h sts) = map ode_frame sts"
  by (simp add: midpoint_last_def ode_frame_def)

lemma frame_leapfrog_drift [simp]:
  "map ode_frame (leapfrog_drift src h sts) = map ode_frame sts"
  by (simp add: leapfrog_drift_def ode_frame_def)

lemma frame_leapfrog_kick [simp]:
  "map ode_frame (leapfrog_kick src h sts) = map ode_frame sts"
  by (simp add: leapfrog_kick_def ode_frame_def)

lemma frame_leapfrog_body [simp]:
  "map ode_frame (snd (leapfrog_body h st)) = map ode_frame (snd st)"
  by (cases st) (simp add: leapfrog_body_def Let_def)

lemma frame_leapfrog_fold [simp]:
  "map ode_frame (snd (fold (\<lambda>j. leapfrog_body h) js st)) = map ode_frame (snd st)"
  by (induction js arbitrary: st) simp_all

lemma frame_tryStep:
  assumes "tryStep sts k n t0 step m = Inr (ok, sts')"
  shows "map ode_frame sts' = map ode_frame sts"
proof -
  consider "m = 0" | "m = 1" | "m \<noteq> 0 \<and> m \<noteq> 1" by blast
  then show ?thesis
  proof cases
    case 1
    let ?h = "step / real_of_int n"
    let ?st = "fold (\<lambda>j. leapfrog_body ?h) [1..<nat n]
                 (t0 + 0.5 * ?h,
                  leapfrog_kick ode_y ?h
                    (eval_derivatives (t0 + 0.5 * ?h) (leapfrog_drift ode_y (0.5 * ?h) sts)))"
    have "sts' = leapfrog_drift ode_y1 (0.5 * ?h) (snd ?st)"
      using assms 1 by (simp add: tryStep_def Let_def split: if_splits prod.splits)
    then show ?thesis by simp
  next
    case 2
    let ?h = "step / real_of_int n"
    let ?l = "midpoint_loop k ?h [1..<nat n] (t0 + ?h, midpoint_first ?h (t0 + ?h) sts)"
    have "sts' = snd ?l \<or> sts' = midpoint_last ?h (snd ?l)"
      using assms 2 by (simp add: tryStep_def Let_def split: if_splits prod.splits)
    then show ?thesis by auto
  next
    case 3
    then show ?thesis using assms by (simp add: tryStep_def Let_def)
  qed
qed

lemma frame_seed_tableau [simp]:
  "map ode_frame (seed_tableau k sts) = map ode_frame sts"
  by (simp add: seed_tableau_def ode_frame_def)

lemma frame_extrapolate [simp]: "ode_frame (extrapolate s cf k) = ode_frame s"
  by (simp add: extrapolate_def ode_frame_def split: prod.splits)

lemma frame_rescale [simp]: "ode_frame (rescale ri s) = ode_frame s"
  by (simp add: rescale_def reb_integrator_bs_default_scale_def ode_frame_def split: option.splits)

lemma frame_initial_scale [simp]: "ode_frame (initial_scale ri s) = ode_frame s"
  by (simp add: initial_scale_def reb_integrator_bs_default_scale_def ode_frame_def
      split: option.splits)

lemma record_optimal_step_keeps [simp]:
  "states (record_optimal_step ri k dt error) = states ri"
  "bs_frame (record_optimal_step ri k dt error) = bs_frame ri"
  "targetIter (record_optimal_step ri k dt error) = targetIter ri"
  "previousRejected (record_optimal_step ri k dt error) = previousRejected ri"
  "costPerStep (record_optimal_step ri k dt error) = costPerStep ri"
  by (simp_all add: record_optimal_step_def Let_def bs_frame_def)

lemma reject_order_exit:
  assumes "reject_order ri k error = Inr (Some ex)"
  shows "states (exit_ri ex) = states ri \<and> bs_frame (exit_ri ex) = bs_frame ri
       \<and> previousRejected (exit_ri ex) = previousRejected ri
       \<and> optimalStep (exit_ri ex) = optimalStep ri
       \<and> exit_k ex = k \<and> exit_error ex = Some error \<and> exit_reject ex
       \<and> inb (targetIter ri)
       \<and> exit_dt ex = optimalStep ri ! nat (targetIter (exit_ri ex))
       \<and> (targetIter (exit_ri ex) = targetIter ri
           \<or> (1 < targetIter ri \<and> targetIter (exit_ri ex) = targetIter ri - 1))"
  using assms
  by (auto simp: reject_order_def Let_def bs_frame_def split: if_splits)

lemma reject_order_no_None: "reject_order ri k error \<noteq> Inr None"
  by (simp add: reject_order_def Let_def)

lemma reject_order_error:
  "reject_order ri k error = Inl e \<Longrightarrow> \<not> inb (targetIter ri)"
  by (simp add: reject_order_def Let_def split: if_splits)

text \<open>The index from which a rejecting branch of the switch starts to lower the order.\<close>

lemma check_convergence_exit:
  assumes "check_convergence ri k dt error = Inr (Some ex)"
  shows "states (exit_ri ex) = states ri \<and> bs_frame (exit_ri ex) = bs_frame ri
       \<and> previousRejected (exit_ri ex) = previousRejected ri
       \<and> optimalStep (exit_ri ex) = optimalStep ri
       \<and> exit_k ex = k \<and> exit_error ex = Some error
       \<and> (\<not> exit_reject ex \<longrightarrow>
             exit_dt ex = dt \<and> error \<le> 1 \<and> exit_ri ex = ri)
       \<and> (exit_reject ex \<longrightarrow>
             (int k - targetIter ri = - 1 \<or> int k - targetIter ri = 0
                \<or> int k - targetIter ri = 1)
           \<and> exit_dt ex = optimalStep ri ! nat (targetIter (exit_ri ex))
           \<and> (let ti = (if int k - targetIter ri = - 1 then int k else targetIter ri)
              in inb ti \<and> (targetIter (exit_ri ex) = ti
                           \<or> (1 < ti \<and> targetIter (exit_ri ex) = ti - 1))))"
proof -
  consider (m1) "int k - targetIter ri = - 1" | (z) "int k - targetIter ri = 0"
    | (p1) "int k - targetIter ri = 1"
    | (other) "int k - targetIter ri \<noteq> - 1" "int k - targetIter ri \<noteq> 0"
        "int k - targetIter ri \<noteq> 1"
    by blast
  then show ?thesis
  proof cases
    case m1
    then have "accept_exit ri k dt error = Inr (Some ex) \<and> error \<le> 1
             \<or> reject_order (ri\<lparr>targetIter := int k\<rparr>) k error = Inr (Some ex)"
      using assms by (simp add: check_convergence_def Let_def split: if_splits)
    then show ?thesis
    proof
      assume "accept_exit ri k dt error = Inr (Some ex) \<and> error \<le> 1"
      then show ?thesis by (auto simp: accept_exit_def)
    next
      assume "reject_order (ri\<lparr>targetIter := int k\<rparr>) k error = Inr (Some ex)"
      from reject_order_exit[OF this] m1 show ?thesis
        by (simp add: bs_frame_def)
    qed
  next
    case z
    then have "accept_exit ri k dt error = Inr (Some ex) \<and> error \<le> 1
             \<or> reject_order ri k error = Inr (Some ex)"
      using assms by (simp add: check_convergence_def Let_def split: if_splits)
    then show ?thesis
    proof
      assume "accept_exit ri k dt error = Inr (Some ex) \<and> error \<le> 1"
      then show ?thesis by (auto simp: accept_exit_def)
    next
      assume "reject_order ri k error = Inr (Some ex)"
      from reject_order_exit[OF this] z show ?thesis by simp
    qed
  next
    case p1
    then have "accept_exit ri k dt error = Inr (Some ex) \<and> error \<le> 1
             \<or> reject_order ri k error = Inr (Some ex)"
      using assms by (simp add: check_convergence_def Let_def split: if_splits)
    then show ?thesis
    proof
      assume "accept_exit ri k dt error = Inr (Some ex) \<and> error \<le> 1"
      then show ?thesis by (auto simp: accept_exit_def)
    next
      assume "reject_order ri k error = Inr (Some ex)"
      from reject_order_exit[OF this] p1 show ?thesis by simp
    qed
  next
    case other
    then have "accept_exit ri k dt error = Inr (Some ex) \<and> error \<le> 1"
      using assms by (simp add: check_convergence_def Let_def split: if_splits)
    then show ?thesis by (auto simp: accept_exit_def)
  qed
qed




lemma bs_loop_exit_ex:
  assumes "I ri k"
      and "\<And>ri k ri'. I ri k \<Longrightarrow> k < sequence_length
                   \<Longrightarrow> loop_iteration ri t dt k = Inr (Inr ri') \<Longrightarrow> I ri' (Suc k)"
      and "bs_loop ri t dt k = Inr ex"
  shows "\<exists>ri' k'. I ri' k' \<and> k' < sequence_length \<and> loop_iteration ri' t dt k' = Inr (Inl ex)"
proof -
  have "(\<forall>ex. bs_loop ri t dt k = Inr ex \<longrightarrow>
          (\<exists>ri' k'. I ri' k' \<and> k' < sequence_length
              \<and> loop_iteration ri' t dt k' = Inr (Inl ex)))
      \<and> (\<forall>e. bs_loop ri t dt k = Inl e \<longrightarrow>
          (\<exists>ri' k'. I ri' k'
              \<and> (if k' < sequence_length then loop_iteration ri' t dt k' = Inl e
                  else e = SequenceIndexOutOfBounds)))"
    by (rule bs_loop_cases[where I = I]) (rule assms(1), rule assms(2), assumption+)
  with assms(3) show ?thesis by blast
qed

lemma bs_loop_error_ex:
  assumes "I ri k"
      and "\<And>ri k ri'. I ri k \<Longrightarrow> k < sequence_length
                   \<Longrightarrow> loop_iteration ri t dt k = Inr (Inr ri') \<Longrightarrow> I ri' (Suc k)"
      and "bs_loop ri t dt k = Inl e"
  shows "\<exists>ri' k'. I ri' k'
            \<and> (if k' < sequence_length then loop_iteration ri' t dt k' = Inl e
                else e = SequenceIndexOutOfBounds)"
proof -
  have "(\<forall>ex. bs_loop ri t dt k = Inr ex \<longrightarrow>
          (\<exists>ri' k'. I ri' k' \<and> k' < sequence_length
              \<and> loop_iteration ri' t dt k' = Inr (Inl ex)))
      \<and> (\<forall>e. bs_loop ri t dt k = Inl e \<longrightarrow>
          (\<exists>ri' k'. I ri' k'
              \<and> (if k' < sequence_length then loop_iteration ri' t dt k' = Inl e
                  else e = SequenceIndexOutOfBounds)))"
    by (rule bs_loop_cases[where I = I]) (rule assms(1), rule assms(2), assumption+)
  with assms(3) show ?thesis by blast
qed

lemma tryStep_error:
  "tryStep sts k n t0 step m = Inl e \<Longrightarrow> e = MethodUnsupported \<or> e = StateIndexOutOfBounds"
  by (auto simp: tryStep_def Let_def split: if_splits prod.splits)

lemma loop_iteration_continue:
  assumes a: "loop_iteration ri t dt k = Inr (Inr ri')"
  shows "(k = 0 \<and> (\<exists>sts. map ode_frame sts = map ode_frame (states ri) \<and> ri' = ri\<lparr>states := sts\<rparr>))
   \<or> (0 < k \<and> (\<exists>sts error. map ode_frame sts = map ode_frame (states ri)
          \<and> ri' = record_optimal_step (ri\<lparr>states := sts\<rparr>) k dt error
          \<and> check_convergence ri' k dt error = Inr None))"
proof -
  let ?ts = "tryStep (states ri) (int k) (sequence ri ! k) t dt (method_bs ri)"
  obtain ok sts where t: "?ts = Inr (ok, sts)" "ok \<noteq> 0"
    using a by (cases ?ts) (auto simp: loop_iteration_def split: if_splits)
  let ?ri1 = "ri\<lparr>states := seed_tableau k sts\<rparr>"
  let ?sts2 = "map (\<lambda>s. rescale ?ri1 (extrapolate s (coeff ?ri1) k)) (states ?ri1)"
  have f1: "map ode_frame (seed_tableau k sts) = map ode_frame (states ri)"
    using frame_tryStep[OF t(1)] by simp
  have f2: "map ode_frame ?sts2 = map ode_frame (states ri)"
    using frame_tryStep[OF t(1)] by (simp add: comp_def)
  have it: "loop_iteration ri t dt k =
      (if \<not> k > 0 then Inr (Inr ?ri1)
       else (let ri2 = ?ri1\<lparr>states := ?sts2\<rparr>;
                 (combined_length, error) = error_estimate (states ri2)
             in if combined_length = 0 then Inl NaNDetected
                else if error > 10 ^ 25 then
                       Inr (Inl \<lparr>exit_ri = ri2, exit_dt = \<bar>dt * stabilityReduction\<bar>,
                                 exit_reject = True, exit_k = k, exit_error = Some error\<rparr>)
                else (let ri3 = record_optimal_step ri2 k dt error
                      in case check_convergence ri3 k dt error of
                             Inl e \<Rightarrow> Inl e
                           | Inr (Some ex) \<Rightarrow> Inr (Inl ex)
                           | Inr None \<Rightarrow> Inr (Inr ri3))))"
    unfolding loop_iteration_def t using t(2) by (simp add: Let_def)
  show ?thesis
  proof (cases "k = 0")
    case True
    then have "ri' = ?ri1" using a unfolding it by simp
    then show ?thesis using True f1 by blast
  next
    case False
    obtain cl error where e: "error_estimate ?sts2 = (cl, error)"
      by (cases "error_estimate ?sts2") auto
    let ?ri3 = "record_optimal_step (ri\<lparr>states := ?sts2\<rparr>) k dt error"
    have "ri' = ?ri3 \<and> check_convergence ?ri3 k dt error = Inr None"
      using a False e unfolding it
      by (simp add: Let_def split: if_splits sum.splits option.splits)
    then show ?thesis using False f2 by blast
  qed
qed


lemma loop_iteration_exit:
  assumes a: "loop_iteration ri t dt k = Inr (Inl ex)"
  shows "(\<exists>sts. map ode_frame sts = map ode_frame (states ri) \<and> exit_reject ex
          \<and> exit_ri ex = ri\<lparr>states := sts\<rparr> \<and> exit_dt ex = \<bar>dt * stabilityReduction\<bar>
          \<and> exit_k ex = k)
   \<or> (0 < k \<and> (\<exists>sts error. map ode_frame sts = map ode_frame (states ri)
          \<and> check_convergence (record_optimal_step (ri\<lparr>states := sts\<rparr>) k dt error) k dt error
              = Inr (Some ex)))"
proof -
  let ?ts = "tryStep (states ri) (int k) (sequence ri ! k) t dt (method_bs ri)"
  obtain ok sts where t: "?ts = Inr (ok, sts)"
    using a by (cases ?ts) (auto simp: loop_iteration_def)
  have f0: "map ode_frame sts = map ode_frame (states ri)"
    using frame_tryStep[OF t] by simp
  show ?thesis
  proof (cases "ok = 0")
    case True
    then have "ex = \<lparr>exit_ri = ri\<lparr>states := sts\<rparr>, exit_dt = \<bar>dt * stabilityReduction\<bar>,
                     exit_reject = True, exit_k = k, exit_error = None\<rparr>"
      using a unfolding loop_iteration_def t by simp
    then show ?thesis using f0 by (intro disjI1 exI[of _ sts]) simp
  next
    case ok: False
    let ?ri1 = "ri\<lparr>states := seed_tableau k sts\<rparr>"
    let ?sts2 = "map (\<lambda>s. rescale ?ri1 (extrapolate s (coeff ?ri1) k)) (states ?ri1)"
    have f2: "map ode_frame ?sts2 = map ode_frame (states ri)"
      using f0 by (simp add: comp_def)
    have it: "loop_iteration ri t dt k =
      (if \<not> k > 0 then Inr (Inr ?ri1)
       else (let ri2 = ?ri1\<lparr>states := ?sts2\<rparr>;
                 (combined_length, error) = error_estimate (states ri2)
             in if combined_length = 0 then Inl NaNDetected
                else if error > 10 ^ 25 then
                       Inr (Inl \<lparr>exit_ri = ri2, exit_dt = \<bar>dt * stabilityReduction\<bar>,
                                 exit_reject = True, exit_k = k, exit_error = Some error\<rparr>)
                else (let ri3 = record_optimal_step ri2 k dt error
                      in case check_convergence ri3 k dt error of
                             Inl e \<Rightarrow> Inl e
                           | Inr (Some ex) \<Rightarrow> Inr (Inl ex)
                           | Inr None \<Rightarrow> Inr (Inr ri3))))"
      unfolding loop_iteration_def t using ok by (simp add: Let_def)
    have k: "0 < k" using a unfolding it by (simp split: if_splits)
    obtain cl error where e: "error_estimate ?sts2 = (cl, error)"
      by (cases "error_estimate ?sts2") auto
    show ?thesis
    proof (cases "error > 10 ^ 25")
      case True
      then have "ex = \<lparr>exit_ri = ri\<lparr>states := ?sts2\<rparr>, exit_dt = \<bar>dt * stabilityReduction\<bar>,
                     exit_reject = True, exit_k = k, exit_error = Some error\<rparr>"
        using a k e unfolding it by (simp add: Let_def split: if_splits)
      then show ?thesis using f2 by (intro disjI1 exI[of _ ?sts2]) simp
    next
      case False
      have "check_convergence (record_optimal_step (ri\<lparr>states := ?sts2\<rparr>) k dt error) k dt error
              = Inr (Some ex)"
        using a k e False unfolding it
        by (simp add: Let_def split: if_splits sum.splits option.splits)
      then show ?thesis using k f2 by blast
    qed
  qed
qed

lemma loop_iteration_error:
  assumes a: "loop_iteration ri t dt k = Inl e"
  shows "e = MethodUnsupported \<or> e = StateIndexOutOfBounds \<or> e = NaNDetected
   \<or> (0 < k \<and> (\<exists>sts error.
          check_convergence (record_optimal_step (ri\<lparr>states := sts\<rparr>) k dt error) k dt error
              = Inl e))"
proof -
  let ?ts = "tryStep (states ri) (int k) (sequence ri ! k) t dt (method_bs ri)"
  show ?thesis
  proof (cases ?ts)
    case (Inl e')
    then have "e = e'" using a by (simp add: loop_iteration_def)
    then show ?thesis using tryStep_error[OF Inl] by blast
  next
    case (Inr p)
    obtain ok sts where t: "?ts = Inr (ok, sts)" using Inr by (cases p) auto
    have ok: "ok \<noteq> 0" using a unfolding loop_iteration_def t by (auto split: if_splits)
    let ?ri1 = "ri\<lparr>states := seed_tableau k sts\<rparr>"
    let ?sts2 = "map (\<lambda>s. rescale ?ri1 (extrapolate s (coeff ?ri1) k)) (states ?ri1)"
    have it: "loop_iteration ri t dt k =
      (if \<not> k > 0 then Inr (Inr ?ri1)
       else (let ri2 = ?ri1\<lparr>states := ?sts2\<rparr>;
                 (combined_length, error) = error_estimate (states ri2)
             in if combined_length = 0 then Inl NaNDetected
                else if error > 10 ^ 25 then
                       Inr (Inl \<lparr>exit_ri = ri2, exit_dt = \<bar>dt * stabilityReduction\<bar>,
                                 exit_reject = True, exit_k = k, exit_error = Some error\<rparr>)
                else (let ri3 = record_optimal_step ri2 k dt error
                      in case check_convergence ri3 k dt error of
                             Inl e \<Rightarrow> Inl e
                           | Inr (Some ex) \<Rightarrow> Inr (Inl ex)
                           | Inr None \<Rightarrow> Inr (Inr ri3))))"
      unfolding loop_iteration_def t using ok by (simp add: Let_def)
    have k: "0 < k" using a unfolding it by (simp split: if_splits)
    obtain cl error where e: "error_estimate ?sts2 = (cl, error)"
      by (cases "error_estimate ?sts2") auto
    have "e = NaNDetected
        \<or> check_convergence (record_optimal_step (ri\<lparr>states := ?sts2\<rparr>) k dt error) k dt error
              = Inl e"
      using a k e unfolding it
      by (simp add: Let_def split: if_splits sum.splits option.splits)
    then show ?thesis using k by blast
  qed
qed

lemma bs_frame_update [simp]:
  "bs_frame (ri\<lparr>states := sts\<rparr>) = bs_frame ri"
  "bs_frame (ri\<lparr>targetIter := ti\<rparr>) = bs_frame ri"
  "bs_frame (ri\<lparr>dt_proposed := d\<rparr>) = bs_frame ri"
  "bs_frame (ri\<lparr>previousRejected := p\<rparr>) = bs_frame ri"
  by (simp_all add: bs_frame_def)

lemma select_order_keeps [simp]:
  "states (select_order ri) = states ri" "bs_frame (select_order ri) = bs_frame ri"
  "previousRejected (select_order ri) = previousRejected ri"
  "optimalStep (select_order ri) = optimalStep ri"
  "costPerStep (select_order ri) = costPerStep ri"
  by (simp_all add: select_order_def Let_def bs_frame_def)

lemma prepare_step_keeps:
  "map ode_frame (states (prepare_step ri t)) = map ode_frame (states ri)"
  "bs_frame (prepare_step ri t) = bs_frame ri"
  "previousRejected (prepare_step ri t) = previousRejected ri"
  "targetIter (prepare_step ri t) = targetIter (select_order ri)"
  "optimalStep (prepare_step ri t) = optimalStep ri"
  "costPerStep (prepare_step ri t) = costPerStep ri"
proof -
  have "ode_frame (s\<lparr>ode_y0Dot := v\<rparr>) = ode_frame s" for s v
    by (simp add: ode_frame_def)
  then show "map ode_frame (states (prepare_step ri t)) = map ode_frame (states ri)"
    by (simp add: prepare_step_def Let_def comp_def)
  show "bs_frame (prepare_step ri t) = bs_frame ri"
    by (simp add: prepare_step_def Let_def)
qed (simp_all add: prepare_step_def Let_def)

text \<open>Frame of the loop: whatever the loop does, the exit has the states' frames, the
  integrator's frame and \<^verbatim>\<open>previousRejected\<close> of its start.\<close>

lemma bs_loop_frame:
  assumes "bs_loop ri t dt k = Inr ex"
  shows "map ode_frame (states (exit_ri ex)) = map ode_frame (states ri)
       \<and> bs_frame (exit_ri ex) = bs_frame ri
       \<and> previousRejected (exit_ri ex) = previousRejected ri"
proof -
  let ?I = "\<lambda>ri' (k'::nat). map ode_frame (states ri') = map ode_frame (states ri)
              \<and> bs_frame ri' = bs_frame ri \<and> previousRejected ri' = previousRejected ri"
  have step: "?I ri'' (Suc k')"
    if "?I ri' k'" "k' < sequence_length" "loop_iteration ri' t dt k' = Inr (Inr ri'')"
    for ri' k' ri''
    using loop_iteration_continue[OF that(3)] that(1) by auto
  have "\<exists>ri' k'. ?I ri' k' \<and> k' < sequence_length \<and> loop_iteration ri' t dt k' = Inr (Inl ex)"
  proof (rule bs_loop_exit_ex[where I = ?I])
    show "?I ri k" by simp
    show "bs_loop ri t dt k = Inr ex" by fact
    show "\<And>ri' k' ri''. ?I ri' k' \<Longrightarrow> k' < sequence_length
            \<Longrightarrow> loop_iteration ri' t dt k' = Inr (Inr ri'') \<Longrightarrow> ?I ri'' (Suc k')"
      by (rule step)
  qed
  then obtain ri' k' where I: "?I ri' k'" and it: "loop_iteration ri' t dt k' = Inr (Inl ex)"
    by blast
  from loop_iteration_exit[OF it] show ?thesis
  proof
    assume "\<exists>sts. map ode_frame sts = map ode_frame (states ri') \<and> exit_reject ex
          \<and> exit_ri ex = ri'\<lparr>states := sts\<rparr> \<and> exit_dt ex = \<bar>dt * stabilityReduction\<bar>
          \<and> exit_k ex = k'"
    then show ?thesis using I by auto
  next
    assume "0 < k' \<and> (\<exists>sts error. map ode_frame sts = map ode_frame (states ri')
          \<and> check_convergence (record_optimal_step (ri'\<lparr>states := sts\<rparr>) k' dt error) k' dt error
              = Inr (Some ex))"
    then obtain sts error where f: "map ode_frame sts = map ode_frame (states ri')"
      and c: "check_convergence (record_optimal_step (ri'\<lparr>states := sts\<rparr>) k' dt error) k' dt error
              = Inr (Some ex)" by blast
    from check_convergence_exit[OF c] f I show ?thesis by simp
  qed
qed

section \<open>BS: a rejected step\<close>

lemma bs_step_of_core:
  assumes "step_core ri t dt = Inr ex"
  shows "reb_integrator_bs_step ri t dt =
    (if \<bar>exit_dt ex\<bar> < minStep (exit_ri ex) then Inl MinStepHit
     else if \<bar>exit_dt ex\<bar> > maxStep (exit_ri ex) \<and> maxStep (exit_ri ex) > 0 then Inl MaxStepHit
     else if exit_reject ex
       then Inr (0, (exit_ri ex)\<lparr>dt_proposed := if \<not> dt \<ge> 0 then - \<bar>exit_dt ex\<bar> else \<bar>exit_dt ex\<bar>,
                                  previousRejected := 1\<rparr>)
       else Inr (1, (exit_ri ex)\<lparr>dt_proposed := if \<not> dt \<ge> 0 then - \<bar>exit_dt ex\<bar> else \<bar>exit_dt ex\<bar>,
                                  previousRejected := 0, firstOrLastStep := 0\<rparr>))"
  unfolding reb_integrator_bs_step_def assms by (simp add: Let_def)

lemma bs_step_core_error:
  assumes "step_core ri t dt = Inl e"
  shows "reb_integrator_bs_step ri t dt = Inl e"
  unfolding reb_integrator_bs_step_def assms by (simp add: Let_def)

lemma bs_step_result:
  assumes "reb_integrator_bs_step ri t dt = Inr (r, ri')"
  obtains ex where "step_core ri t dt = Inr ex"
    "minStep (exit_ri ex) \<le> \<bar>exit_dt ex\<bar>"
    "maxStep (exit_ri ex) > 0 \<Longrightarrow> \<bar>exit_dt ex\<bar> \<le> maxStep (exit_ri ex)"
    "exit_reject ex \<Longrightarrow> r = 0 \<and> ri' = (exit_ri ex)\<lparr>dt_proposed := if \<not> dt \<ge> 0 then - \<bar>exit_dt ex\<bar> else \<bar>exit_dt ex\<bar>,
                                  previousRejected := 1\<rparr>"
    "\<not> exit_reject ex \<Longrightarrow> r = 1 \<and> ri' = (exit_ri ex)\<lparr>dt_proposed := if \<not> dt \<ge> 0 then - \<bar>exit_dt ex\<bar> else \<bar>exit_dt ex\<bar>,
                                  previousRejected := 0, firstOrLastStep := 0\<rparr>"
proof (cases "step_core ri t dt")
  case (Inl e)
  from bs_step_core_error[OF Inl] assms show ?thesis by simp
next
  case (Inr ex)
  have a: "minStep (exit_ri ex) \<le> \<bar>exit_dt ex\<bar>"
    using assms unfolding bs_step_of_core[OF Inr] by (simp split: if_splits)
  have b: "\<bar>exit_dt ex\<bar> \<le> maxStep (exit_ri ex)" if "maxStep (exit_ri ex) > 0"
    using assms that unfolding bs_step_of_core[OF Inr] by (simp split: if_splits)
  have c: "r = 0 \<and> ri' = (exit_ri ex)\<lparr>dt_proposed := if \<not> dt \<ge> 0 then - \<bar>exit_dt ex\<bar> else \<bar>exit_dt ex\<bar>,
                                  previousRejected := 1\<rparr>" if "exit_reject ex"
    using assms that unfolding bs_step_of_core[OF Inr] by (simp split: if_splits)
  have d: "r = 1 \<and> ri' = (exit_ri ex)\<lparr>dt_proposed := if \<not> dt \<ge> 0 then - \<bar>exit_dt ex\<bar> else \<bar>exit_dt ex\<bar>,
                                  previousRejected := 0, firstOrLastStep := 0\<rparr>" if "\<not> exit_reject ex"
    using assms that unfolding bs_step_of_core[OF Inr] by (simp split: if_splits)
  from that[OF Inr a b c d] show ?thesis by blast
qed


lemma step_core_reject:
  assumes "step_core ri t dt = Inr ex" "exit_reject ex"
  shows "bs_loop (prepare_step ri t) t dt 0 = Inr ex"
proof (cases "bs_loop (prepare_step ri t) t dt 0")
  case (Inl e)
  then show ?thesis using assms(1) by (simp add: step_core_def)
next
  case (Inr ex0)
  show ?thesis
  proof (cases "exit_reject ex0")
    case True
    then show ?thesis using assms(1) Inr by (simp add: step_core_def)
  next
    case False
    then have "\<not> exit_reject ex"
      using assms(1) Inr
      by (cases "accept_update (exit_ri ex0) (exit_k ex0) (exit_dt ex0)")
         (auto simp: step_core_def)
    then show ?thesis using assms(2) by simp
  qed
qed

lemma step_core_accept:
  assumes "step_core ri t dt = Inr ex" "\<not> exit_reject ex"
  shows "\<exists>ex0 ri' dt'. bs_loop (prepare_step ri t) t dt 0 = Inr ex0 \<and> \<not> exit_reject ex0
          \<and> accept_update (exit_ri ex0) (exit_k ex0) (exit_dt ex0) = Inr (ri', dt')
          \<and> ex = ex0\<lparr>exit_ri := ri', exit_dt := dt'\<rparr>"
proof (cases "bs_loop (prepare_step ri t) t dt 0")
  case (Inl e)
  then show ?thesis using assms(1) by (simp add: step_core_def)
next
  case (Inr ex0)
  show ?thesis
  proof (cases "exit_reject ex0")
    case True
    then show ?thesis using assms Inr by (simp add: step_core_def)
  next
    case False
    then show ?thesis
      using assms(1) Inr
      by (cases "accept_update (exit_ri ex0) (exit_k ex0) (exit_dt ex0)")
         (auto simp: step_core_def)
  qed
qed

text \<open>
  Claim C3. If the step returns 0 (rejected), every ODE state has the vector \<^verbatim>\<open>y\<close>
  of the entry, and \<^verbatim>\<open>firstOrLastStep\<close> is unchanged. Moreover the length and the
  callbacks of every state and the parameters and allocation-time tables of the
  integrator are unchanged, so that only \<^verbatim>\<open>targetIter\<close>, \<^verbatim>\<open>previousRejected\<close>,
  \<^verbatim>\<open>dt_proposed\<close> and the work arrays (\<^verbatim>\<open>y1\<close>, \<^verbatim>\<open>y0Dot\<close>, \<^verbatim>\<open>yDot\<close>, \<^verbatim>\<open>yTmp\<close>, \<^verbatim>\<open>C\<close>,
  \<^verbatim>\<open>D\<close>, \<^verbatim>\<open>scale\<close>, \<^verbatim>\<open>optimalStep\<close>, \<^verbatim>\<open>costPerTimeUnit\<close>) may differ.
\<close>

theorem rejected_step_keeps_state:
  assumes "reb_integrator_bs_step ri t dt = Inr (0, ri')"
  shows "map ode_y (states ri') = map ode_y (states ri)
       \<and> firstOrLastStep ri' = firstOrLastStep ri
       \<and> map ode_frame (states ri') = map ode_frame (states ri)
       \<and> bs_frame ri' = bs_frame ri"
proof (rule bs_step_result[OF assms])
  fix ex
  assume core: "step_core ri t dt = Inr ex"
    and rej: "exit_reject ex \<Longrightarrow> (0::int) = 0 \<and> ri' = (exit_ri ex)\<lparr>dt_proposed := if \<not> dt \<ge> 0 then - \<bar>exit_dt ex\<bar> else \<bar>exit_dt ex\<bar>,
                                  previousRejected := 1\<rparr>"
    and acc: "\<not> exit_reject ex \<Longrightarrow> (0::int) = 1 \<and> ri' = (exit_ri ex)\<lparr>dt_proposed := if \<not> dt \<ge> 0 then - \<bar>exit_dt ex\<bar> else \<bar>exit_dt ex\<bar>,
                                  previousRejected := 0, firstOrLastStep := 0\<rparr>"
  have r: "exit_reject ex" using acc by auto
  note ri' = rej[OF r, THEN conjunct2]
  have loop: "bs_loop (prepare_step ri t) t dt 0 = Inr ex"
    by (rule step_core_reject[OF core r])
  have f1: "map ode_frame (states ri') = map ode_frame (states ri)"
    using bs_loop_frame[OF loop] prepare_step_keeps(1)[of ri t] by (simp add: ri')
  have f2: "bs_frame ri' = bs_frame ri"
    using bs_loop_frame[OF loop] prepare_step_keeps(2)[of ri t] by (simp add: ri')
  have "map (\<lambda>s. fst (snd (ode_frame s))) (states ri')
          = map (\<lambda>s. fst (snd (ode_frame s))) (states ri)"
    using arg_cong[OF f1, of "map (\<lambda>p. fst (snd p))"] by (simp add: comp_def)
  then have "map ode_y (states ri') = map ode_y (states ri)"
    by (simp add: ode_frame_def)
  moreover have "firstOrLastStep ri' = firstOrLastStep ri"
    using f2 by (simp add: bs_frame_def)
  ultimately show ?thesis using f1 f2 by simp
qed

text \<open>The integrator of the example rejects a step of 1 for \<open>y' = 10 y\<close>: the first
  column fails the stability check.\<close>

lemma sequence_length_9: "sequence_length = 9"
  by (simp add: sequence_length_def maxOrder_def)

lemma upt_9: "[0..<9] = [0, 1, 2, 3, 4, 5, 6, 7, 8]"
  by (simp add: upt_rec)

lemma allocate_sequence_arrays_values:
  "allocate_sequence_arrays cptu opt ri =
     ri\<lparr>sequence := [2, 6, 10, 14, 18, 22, 26, 30, 34],
        costPerStep := [3, 9, 19, 33, 51, 73, 99, 129, 163],
        coeff := [1 / 4, 1 / 36, 1 / 100, 1 / 196, 1 / 324, 1 / 484, 1 / 676, 1 / 900, 1 / 1156],
        costPerTimeUnit := (take 9 cptu)[0 := 0],
        optimalStep := take 9 opt\<rparr>"
proof -
  have seq: "map (\<lambda>k. 4 * int k + 2) [0..<sequence_length] = [2, 6, 10, 14, 18, 22, 26, 30, 34]"
    by (simp add: sequence_length_9 upt_9)
  have cost: "fold (\<lambda>k c. c[k := c ! (k - 1) + [2, 6, 10, 14, 18, 22, 26, 30, 34] ! k]) [1..<9]
                ((replicate 9 (0::int))[0 := [2, 6, 10, 14, 18, 22, 26, 30, 34] ! 0 + 1])
              = [3, 9, 19, 33, 51, 73, 99, 129, 163]"
    by code_simp
  show ?thesis
    unfolding allocate_sequence_arrays_def seq Let_def
    unfolding sequence_length_9 cost
    by (simp add: upt_9)
qed

lemma bs_example_record:
  "bs_example rhs =
     \<lparr>states = [ode_example rhs], sequence = [2, 6, 10, 14, 18, 22, 26, 30, 34],
      costPerStep = [3, 9, 19, 33, 51, 73, 99, 129, 163],
      coeff = [1 / 4, 1 / 36, 1 / 100, 1 / 196, 1 / 324, 1 / 484, 1 / 676, 1 / 900, 1 / 1156],
      costPerTimeUnit = [0, 0, 0, 0, 0, 0, 0, 0, 0], optimalStep = [0, 0, 0, 0, 0, 0, 0, 0, 0],
      scalAbsoluteTolerance = 1, scalRelativeTolerance = 2, minStep = 0, maxStep = 0,
      dt_proposed = 0, method_bs = 1, targetIter = 1, previousRejected = 0,
      firstOrLastStep = 1\<rparr>"
  unfolding bs_example_def allocate_sequence_arrays_values
  by (simp add: numeral_eq_Suc)

lemma prepare_step_example:
  "prepare_step (bs_example (\<lambda>y t i. 10 * y ! i)) 0 =
     (bs_example (\<lambda>y t i. 10 * y ! i))
       \<lparr>states := [(ode_example (\<lambda>y t i. 10 * y ! i))\<lparr>ode_scale := [5], ode_y0Dot := [30]\<rparr>]\<rparr>"
  by (simp add: bs_example_record prepare_step_def select_order_def initial_scale_def
      reb_integrator_bs_default_scale_def ode_example_def Let_def)


lemma rejected_step_example:
  "\<exists>ri'. reb_integrator_bs_step (bs_example (\<lambda>y t i. 10 * y ! i)) 0 1 = Inr (0, ri')"
proof -
  let ?ri = "prepare_step (bs_example (\<lambda>y t i. 10 * y ! i)) 0"
  obtain sts' where
    t: "tryStep [(ode_example (\<lambda>y t i. 10 * y ! i))\<lparr>ode_scale := [5], ode_y0Dot := [30]\<rparr>]
          0 2 0 1 1 = Inr (0, sts')"
    using tryStep_unstable_example by blast
  let ?ex = "\<lparr>exit_ri = ?ri\<lparr>states := sts'\<rparr>, exit_dt = \<bar>1 * stabilityReduction\<bar>,
               exit_reject = True, exit_k = 0, exit_error = None\<rparr>"
  have f: "states ?ri = [(ode_example (\<lambda>y t i. 10 * y ! i))\<lparr>ode_scale := [5], ode_y0Dot := [30]\<rparr>]"
    "sequence ?ri ! 0 = 2" "method_bs ?ri = 1" "minStep ?ri = 0" "maxStep ?ri = 0"
    unfolding prepare_step_example by (simp_all add: bs_example_record)
  have "loop_iteration ?ri 0 1 0 = Inr (Inl ?ex)"
    unfolding loop_iteration_def f by (simp add: t)
  then have "bs_loop ?ri 0 1 0 = Inr ?ex"
    by (simp add: sequence_length_9)
  then have "step_core (bs_example (\<lambda>y t i. 10 * y ! i)) 0 1 = Inr ?ex"
    by (simp add: step_core_def)
  from bs_step_of_core[OF this] show ?thesis
    by (simp add: f stabilityReduction_def)
qed

theorem rejected_step_keeps_state_witness:
  "\<exists>ri'. reb_integrator_bs_step (bs_example (\<lambda>y t i. 10 * y ! i)) 0 1 = Inr (0, ri')
      \<and> map ode_y (states ri') = [[3]] \<and> firstOrLastStep ri' = 1"
proof -
  obtain ri' where s: "reb_integrator_bs_step (bs_example (\<lambda>y t i. 10 * y ! i)) 0 1 = Inr (0, ri')"
    using rejected_step_example by blast
  from rejected_step_keeps_state[OF s] s show ?thesis
    by (simp add: bs_example_record ode_example_def)
qed

section \<open>BS: the column index stays in range\<close>

lemma check_convergence_continue:
  "check_convergence ri k dt error = Inr None \<Longrightarrow> int k \<noteq> targetIter ri + 1"
  by (auto simp: check_convergence_def Let_def accept_exit_def reject_order_no_None
      split: if_splits)

lemma inb_iff: "inb i \<longleftrightarrow> 0 \<le> i \<and> i \<le> 8"
  by (auto simp: inb_def sequence_length_9)

lemma check_convergence_no_error:
  assumes "1 \<le> targetIter ri" "targetIter ri \<le> 7" "0 < k" "int k \<le> targetIter ri + 1"
  shows "check_convergence ri k dt error \<noteq> Inl e"
proof
  assume c: "check_convergence ri k dt error = Inl e"
  consider (m1) "int k - targetIter ri = - 1" | (z) "int k - targetIter ri = 0"
    | (p1) "int k - targetIter ri = 1"
    | (other) "int k - targetIter ri \<noteq> - 1" "int k - targetIter ri \<noteq> 0"
        "int k - targetIter ri \<noteq> 1"
    by blast
  then show False
  proof cases
    case m1
    have i: "inb (targetIter ri)" "inb (targetIter ri + 1)" "inb (int k)"
      using assms m1 by (simp_all add: inb_iff)
    from c m1 i(1,2) have "reject_order (ri\<lparr>targetIter := int k\<rparr>) k error = Inl e"
      by (simp add: check_convergence_def Let_def accept_exit_def split: if_splits)
    from reject_order_error[OF this] i(3) show False by simp
  next
    case z
    have i: "inb (targetIter ri)" "inb (int k + 1)"
      using assms z by (simp_all add: inb_iff)
    from c z i(2) have "reject_order ri k error = Inl e"
      by (simp add: check_convergence_def Let_def accept_exit_def split: if_splits)
    from reject_order_error[OF this] i(1) show False by simp
  next
    case p1
    have i: "inb (targetIter ri)"
      using assms by (simp_all add: inb_iff)
    from c p1 have "reject_order ri k error = Inl e"
      by (simp add: check_convergence_def Let_def accept_exit_def split: if_splits)
    from reject_order_error[OF this] i(1) show False by simp
  next
    case other
    with c show False
      by (simp add: check_convergence_def Let_def accept_exit_def split: if_splits)
  qed
qed

lemma record_optimal_step_length:
  "length (optimalStep (record_optimal_step ri k dt error)) = length (optimalStep ri)"
  by (simp add: record_optimal_step_def Let_def)

lemma record_optimal_step_other:
  "i \<noteq> k \<Longrightarrow> optimalStep (record_optimal_step ri k dt error) ! i = optimalStep ri ! i"
  by (simp add: record_optimal_step_def Let_def)

lemma record_optimal_step_entry:
  assumes "k < length (optimalStep ri)"
  shows "(optimalStep (record_optimal_step ri k dt error) ! k = 0) = (dt = 0)"
proof -
  define power where "power = stepControl3 powr (1 / (2 * real k + 1))"
  have p: "0 < power" by (simp add: power_def stepControl3_def)
  have "0 < power / stepControl4" using p by (simp add: stepControl4_def)
  then have "0 < max (power / stepControl4) x" for x by (simp add: less_max_iff_disj)
  then have "max (power / stepControl4) x \<noteq> 0" for x by (simp add: less_imp_neq[THEN not_sym])
  then show ?thesis
    using assms by (simp add: record_optimal_step_def Let_def power_def[symmetric])
qed


lemma loop_iteration_continue_facts:
  assumes "loop_iteration ri t dt k = Inr (Inr ri')"
  shows "targetIter ri' = targetIter ri \<and> (0 < k \<longrightarrow> int k \<noteq> targetIter ri + 1)
       \<and> length (optimalStep ri') = length (optimalStep ri)
       \<and> (\<forall>i. i \<noteq> k \<longrightarrow> optimalStep ri' ! i = optimalStep ri ! i)
       \<and> (0 < k \<and> k < length (optimalStep ri) \<longrightarrow> (optimalStep ri' ! k = 0) = (dt = 0))"
  using loop_iteration_continue[OF assms]
proof
  assume "k = 0 \<and> (\<exists>sts. map ode_frame sts = map ode_frame (states ri) \<and> ri' = ri\<lparr>states := sts\<rparr>)"
  then obtain sts where "k = 0" "ri' = ri\<lparr>states := sts\<rparr>" by blast
  then show ?thesis by simp
next
  assume "0 < k \<and> (\<exists>sts error. map ode_frame sts = map ode_frame (states ri)
          \<and> ri' = record_optimal_step (ri\<lparr>states := sts\<rparr>) k dt error
          \<and> check_convergence ri' k dt error = Inr None)"
  then obtain sts error where k: "0 < k"
    and r: "ri' = record_optimal_step (ri\<lparr>states := sts\<rparr>) k dt error"
    and c: "check_convergence ri' k dt error = Inr None" by blast
  have t: "targetIter ri' = targetIter ri" by (simp add: r)
  have "int k \<noteq> targetIter ri + 1"
    using check_convergence_continue[OF c] t by simp
  moreover have "length (optimalStep ri') = length (optimalStep ri)"
    by (simp add: r record_optimal_step_length)
  moreover have "optimalStep ri' ! i = optimalStep ri ! i" if "i \<noteq> k" for i
    using that by (simp add: r record_optimal_step_other)
  moreover have "(optimalStep ri' ! k = 0) = (dt = 0)" if "k < length (optimalStep ri)"
    unfolding r by (rule record_optimal_step_entry) (simp add: that)
  ultimately show ?thesis using t by simp
qed

lemma loop_iteration_continue_target:
  assumes "loop_iteration ri t dt k = Inr (Inr ri')"
  shows "targetIter ri' = targetIter ri" "0 < k \<Longrightarrow> int k \<noteq> targetIter ri + 1"
proof -
  note f = loop_iteration_continue_facts[OF assms]
  show "targetIter ri' = targetIter ri" by (rule conjunct1[OF f])
  show "int k \<noteq> targetIter ri + 1" if "0 < k"
    using conjunct1[OF conjunct2[OF f]] that by simp
qed

lemma loop_iteration_continue_steps:
  assumes "loop_iteration ri t dt k = Inr (Inr ri')"
  shows "length (optimalStep ri') = length (optimalStep ri)"
    "i \<noteq> k \<Longrightarrow> optimalStep ri' ! i = optimalStep ri ! i"
    "0 < k \<Longrightarrow> k < length (optimalStep ri) \<Longrightarrow> (optimalStep ri' ! k = 0) = (dt = 0)"
proof -
  note f = conjunct2[OF conjunct2[OF loop_iteration_continue_facts[OF assms]]]
  show "length (optimalStep ri') = length (optimalStep ri)" by (rule conjunct1[OF f])
  show "optimalStep ri' ! i = optimalStep ri ! i" if "i \<noteq> k"
    using conjunct1[OF conjunct2[OF f]] that by simp
  show "(optimalStep ri' ! k = 0) = (dt = 0)" if "0 < k" "k < length (optimalStep ri)"
    using conjunct2[OF conjunct2[OF f]] that by simp
qed

lemma target_invariant_step:
  assumes T: "1 \<le> T0"
      and i: "targetIter ri = T0" "int k \<le> T0 + 1"
      and l: "loop_iteration ri t dt k = Inr (Inr ri')"
  shows "targetIter ri' = T0" "int (Suc k) \<le> T0 + 1"
proof -
  show "targetIter ri' = T0"
    using loop_iteration_continue_target(1)[OF l] i(1) by simp
  show "int (Suc k) \<le> T0 + 1"
  proof (cases "k = 0")
    case True
    then show ?thesis using T by simp
  next
    case False
    then have "int k \<noteq> T0 + 1"
      using loop_iteration_continue_target(2)[OF l] i(1) by simp
    then show ?thesis using i(2) by simp
  qed
qed

lemma bs_loop_no_index_error:
  assumes T: "1 \<le> targetIter ri0" "targetIter ri0 \<le> 7"
  shows "bs_loop ri0 t dt 0 \<noteq> Inl SequenceIndexOutOfBounds"
proof
  assume a: "bs_loop ri0 t dt 0 = Inl SequenceIndexOutOfBounds"
  let ?I = "\<lambda>ri (k::nat). targetIter ri = targetIter ri0 \<and> int k \<le> targetIter ri0 + 1"
  have "\<exists>ri' k'. ?I ri' k'
          \<and> (if k' < sequence_length
              then loop_iteration ri' t dt k' = Inl SequenceIndexOutOfBounds
              else SequenceIndexOutOfBounds = SequenceIndexOutOfBounds)"
  proof (rule bs_loop_error_ex[where I = ?I])
    show "?I ri0 0" using T by simp
    show "bs_loop ri0 t dt 0 = Inl SequenceIndexOutOfBounds" by fact
    fix ri k ri'
    assume i: "?I ri k" and "k < sequence_length"
      and l: "loop_iteration ri t dt k = Inr (Inr ri')"
    from target_invariant_step[OF T(1) conjunct1[OF i] conjunct2[OF i] l]
    show "?I ri' (Suc k)" by simp
  qed
  then obtain ri' k' where i: "targetIter ri' = targetIter ri0" "int k' \<le> targetIter ri0 + 1"
    and l: "if k' < sequence_length
              then loop_iteration ri' t dt k' = Inl SequenceIndexOutOfBounds else True"
    by auto
  have "k' < sequence_length" using i T by (simp add: sequence_length_9)
  with l have l': "loop_iteration ri' t dt k' = Inl SequenceIndexOutOfBounds" by simp
  from loop_iteration_error[OF l']
  obtain sts error where k: "0 < k'"
    and c: "check_convergence (record_optimal_step (ri'\<lparr>states := sts\<rparr>) k' dt error) k' dt error
              = Inl SequenceIndexOutOfBounds"
    by auto
  have "check_convergence (record_optimal_step (ri'\<lparr>states := sts\<rparr>) k' dt error) k' dt error
          \<noteq> Inl SequenceIndexOutOfBounds"
    by (rule check_convergence_no_error) (use i T k in simp_all)
  with c show False by simp
qed

lemma check_convergence_reject_target:
  assumes c: "check_convergence ri k dt error = Inr (Some ex)"
      and r: "exit_reject ex"
      and T: "1 \<le> targetIter ri" "targetIter ri \<le> 7" "0 < k"
  shows "1 \<le> targetIter (exit_ri ex)" "targetIter (exit_ri ex) \<le> 7"
    "targetIter (exit_ri ex) \<le> int k"
    "int k \<le> targetIter ri + 1"
    "exit_dt ex = optimalStep ri ! nat (targetIter (exit_ri ex))"
proof -
  note f = check_convergence_exit[OF c]
  from f r have d: "int k - targetIter ri = - 1 \<or> int k - targetIter ri = 0
                \<or> int k - targetIter ri = 1" by blast
  from f r have e: "exit_dt ex = optimalStep ri ! nat (targetIter (exit_ri ex))" by blast
  from f r have
    t: "let ti = (if int k - targetIter ri = - 1 then int k else targetIter ri)
        in inb ti \<and> (targetIter (exit_ri ex) = ti
                           \<or> (1 < ti \<and> targetIter (exit_ri ex) = ti - 1))" by blast
  show "exit_dt ex = optimalStep ri ! nat (targetIter (exit_ri ex))" by (rule e)
  show "int k \<le> targetIter ri + 1" using d by arith
  have "1 \<le> targetIter (exit_ri ex) \<and> targetIter (exit_ri ex) \<le> 7
      \<and> targetIter (exit_ri ex) \<le> int k"
  proof (cases "int k - targetIter ri = - 1")
    case True
    with t have "targetIter (exit_ri ex) = int k
        \<or> (1 < int k \<and> targetIter (exit_ri ex) = int k - 1)" by (simp add: Let_def)
    then show ?thesis using True T by arith
  next
    case False
    with t have "targetIter (exit_ri ex) = targetIter ri
        \<or> (1 < targetIter ri \<and> targetIter (exit_ri ex) = targetIter ri - 1)"
      by (simp add: Let_def)
    then show ?thesis using False d T by arith
  qed
  then show "1 \<le> targetIter (exit_ri ex)" "targetIter (exit_ri ex) \<le> 7"
    "targetIter (exit_ri ex) \<le> int k" by simp_all
qed

lemma loop_iteration_exit_accept:
  assumes l: "loop_iteration ri t dt k = Inr (Inl ex)" and a: "\<not> exit_reject ex"
  shows "0 < k" "exit_dt ex = dt" "\<exists>error. exit_error ex = Some error \<and> error \<le> 1"
    "targetIter (exit_ri ex) = targetIter ri" "exit_k ex = k"
    "\<exists>sts error. exit_ri ex = record_optimal_step (ri\<lparr>states := sts\<rparr>) k dt error"
proof -
  from loop_iteration_exit[OF l] a
  obtain sts error where k: "0 < k"
    and c: "check_convergence (record_optimal_step (ri\<lparr>states := sts\<rparr>) k dt error) k dt error
              = Inr (Some ex)" by blast
  note f = check_convergence_exit[OF c]
  from f a have x: "exit_dt ex = dt" "error \<le> 1"
    "exit_ri ex = record_optimal_step (ri\<lparr>states := sts\<rparr>) k dt error" by blast+
  from f have y: "exit_k ex = k" "exit_error ex = Some error" by blast+
  show "0 < k" by (rule k)
  show "exit_dt ex = dt" by (rule x)
  show "\<exists>error. exit_error ex = Some error \<and> error \<le> 1" using x(2) y(2) by blast
  show "targetIter (exit_ri ex) = targetIter ri" by (simp add: x(3))
  show "exit_k ex = k" by (rule y)
  show "\<exists>sts error. exit_ri ex = record_optimal_step (ri\<lparr>states := sts\<rparr>) k dt error"
    using x(3) by blast
qed

lemma loop_iteration_exit_reject:
  assumes l: "loop_iteration ri t dt k = Inr (Inl ex)" and r: "exit_reject ex"
      and T: "1 \<le> targetIter ri" "targetIter ri \<le> 7"
  shows "exit_k ex = k"
    "1 \<le> targetIter (exit_ri ex) \<and> targetIter (exit_ri ex) \<le> 7"
    "(exit_dt ex = \<bar>dt * stabilityReduction\<bar>)
     \<or> (\<exists>sts error. 0 < k \<and> targetIter (exit_ri ex) \<le> int k
           \<and> exit_dt ex = optimalStep (record_optimal_step (ri\<lparr>states := sts\<rparr>) k dt error)
                              ! nat (targetIter (exit_ri ex)))"
proof -
  have "exit_k ex = k
    \<and> (1 \<le> targetIter (exit_ri ex) \<and> targetIter (exit_ri ex) \<le> 7)
    \<and> ((exit_dt ex = \<bar>dt * stabilityReduction\<bar>)
     \<or> (\<exists>sts error. 0 < k \<and> targetIter (exit_ri ex) \<le> int k
           \<and> exit_dt ex = optimalStep (record_optimal_step (ri\<lparr>states := sts\<rparr>) k dt error)
                              ! nat (targetIter (exit_ri ex))))"
    using loop_iteration_exit[OF l]
  proof
    assume "\<exists>sts. map ode_frame sts = map ode_frame (states ri) \<and> exit_reject ex
          \<and> exit_ri ex = ri\<lparr>states := sts\<rparr> \<and> exit_dt ex = \<bar>dt * stabilityReduction\<bar>
          \<and> exit_k ex = k"
    then obtain sts where "exit_ri ex = ri\<lparr>states := sts\<rparr>"
      "exit_dt ex = \<bar>dt * stabilityReduction\<bar>" "exit_k ex = k" by blast
    then show ?thesis using T by simp
  next
    assume "0 < k \<and> (\<exists>sts error. map ode_frame sts = map ode_frame (states ri)
          \<and> check_convergence (record_optimal_step (ri\<lparr>states := sts\<rparr>) k dt error) k dt error
              = Inr (Some ex))"
    then obtain sts error where k: "0 < k"
      and c: "check_convergence (record_optimal_step (ri\<lparr>states := sts\<rparr>) k dt error) k dt error
              = Inr (Some ex)" by blast
    have T': "1 \<le> targetIter (record_optimal_step (ri\<lparr>states := sts\<rparr>) k dt error)"
      "targetIter (record_optimal_step (ri\<lparr>states := sts\<rparr>) k dt error) \<le> 7"
      using T by simp_all
    note g = check_convergence_reject_target[OF c r T' k]
    have "exit_k ex = k" using check_convergence_exit[OF c] by blast
    then show ?thesis using g(1,2,3,5) k by blast
  qed
  then show "exit_k ex = k"
    "1 \<le> targetIter (exit_ri ex) \<and> targetIter (exit_ri ex) \<le> 7"
    "(exit_dt ex = \<bar>dt * stabilityReduction\<bar>)
     \<or> (\<exists>sts error. 0 < k \<and> targetIter (exit_ri ex) \<le> int k
           \<and> exit_dt ex = optimalStep (record_optimal_step (ri\<lparr>states := sts\<rparr>) k dt error)
                              ! nat (targetIter (exit_ri ex)))"
    by blast+
qed

lemma bs_loop_exit_accept:
  assumes loop: "bs_loop ri0 t dt k0 = Inr ex" and a: "\<not> exit_reject ex"
  shows "exit_dt ex = dt" "\<exists>error. exit_error ex = Some error \<and> error \<le> 1" "0 < exit_k ex"
proof -
  have "\<exists>ri' k'. True \<and> k' < sequence_length \<and> loop_iteration ri' t dt k' = Inr (Inl ex)"
    by (rule bs_loop_exit_ex[where I = "\<lambda>ri k. True", OF _ _ loop]) simp_all
  then obtain ri' k' where l: "loop_iteration ri' t dt k' = Inr (Inl ex)" by blast
  show "exit_dt ex = dt" by (rule loop_iteration_exit_accept(2)[OF l a])
  show "\<exists>error. exit_error ex = Some error \<and> error \<le> 1"
    by (rule loop_iteration_exit_accept(3)[OF l a])
  show "0 < exit_k ex"
    using loop_iteration_exit_accept(1,5)[OF l a] by simp
qed

lemma bs_loop_exit_target:
  assumes T: "1 \<le> targetIter ri0" "targetIter ri0 \<le> 7"
      and loop: "bs_loop ri0 t dt 0 = Inr ex"
  shows "int (exit_k ex) \<le> targetIter ri0 + 1"
    "1 \<le> targetIter (exit_ri ex)" "targetIter (exit_ri ex) \<le> 7"
    "\<not> exit_reject ex \<Longrightarrow> targetIter (exit_ri ex) = targetIter ri0"
proof -
  let ?I = "\<lambda>ri (k::nat). targetIter ri = targetIter ri0 \<and> int k \<le> targetIter ri0 + 1"
  have "\<exists>ri' k'. ?I ri' k' \<and> k' < sequence_length \<and> loop_iteration ri' t dt k' = Inr (Inl ex)"
  proof (rule bs_loop_exit_ex[where I = ?I])
    show "?I ri0 0" using T by simp
    show "bs_loop ri0 t dt 0 = Inr ex" by fact
    fix ri k ri'
    assume i: "?I ri k" and "k < sequence_length"
      and l: "loop_iteration ri t dt k = Inr (Inr ri')"
    from target_invariant_step[OF T(1) conjunct1[OF i] conjunct2[OF i] l]
    show "?I ri' (Suc k)" by simp
  qed
  then obtain ri' k' where i: "targetIter ri' = targetIter ri0" "int k' \<le> targetIter ri0 + 1"
    and l: "loop_iteration ri' t dt k' = Inr (Inl ex)" by blast
  have T': "1 \<le> targetIter ri'" "targetIter ri' \<le> 7" using T i by simp_all
  have k: "exit_k ex = k'"
    using loop_iteration_exit_reject(1)[OF l _ T'] loop_iteration_exit_accept(5)[OF l]
    by blast
  show "int (exit_k ex) \<le> targetIter ri0 + 1" using k i by simp
  have t: "targetIter (exit_ri ex) = targetIter ri0" if "\<not> exit_reject ex"
    using loop_iteration_exit_accept(4)[OF l that] i by simp
  show "\<not> exit_reject ex \<Longrightarrow> targetIter (exit_ri ex) = targetIter ri0" by (rule t)
  have "1 \<le> targetIter (exit_ri ex) \<and> targetIter (exit_ri ex) \<le> 7"
  proof (cases "exit_reject ex")
    case True
    then show ?thesis by (rule loop_iteration_exit_reject(2)[OF l _ T'])
  next
    case False
    then show ?thesis using t T by simp
  qed
  then show "1 \<le> targetIter (exit_ri ex)" "targetIter (exit_ri ex) \<le> 7" by simp_all
qed

lemma record_optimal_step_entries:
  assumes len: "k < length (optimalStep ri)"
      and inv: "\<And>i. 1 \<le> i \<Longrightarrow> i < k \<Longrightarrow> (optimalStep ri ! i = 0) = (dt = 0)"
      and i: "1 \<le> i" "i \<le> k"
  shows "(optimalStep (record_optimal_step (ri\<lparr>states := sts\<rparr>) k dt error) ! i = 0) = (dt = 0)"
proof (cases "i = k")
  case True
  have "k < length (optimalStep (ri\<lparr>states := sts\<rparr>))" using len by simp
  from record_optimal_step_entry[OF this] True show ?thesis by simp
next
  case False
  then have "i < k" using i by simp
  from inv[OF i(1) this] False show ?thesis
    by (simp add: record_optimal_step_other)
qed

lemma bs_loop_exit_steps:
  assumes T: "1 \<le> targetIter ri0" "targetIter ri0 \<le> 7"
      and len: "length (optimalStep ri0) = sequence_length"
      and loop: "bs_loop ri0 t dt 0 = Inr ex"
  shows "exit_reject ex \<Longrightarrow> (exit_dt ex = 0) = (dt = 0)"
    "\<not> exit_reject ex \<Longrightarrow> 1 \<le> i \<Longrightarrow> i \<le> exit_k ex
        \<Longrightarrow> (optimalStep (exit_ri ex) ! i = 0) = (dt = 0)"
proof -
  let ?I = "\<lambda>ri (k::nat). (targetIter ri = targetIter ri0 \<and> int k \<le> targetIter ri0 + 1)
              \<and> length (optimalStep ri) = sequence_length
              \<and> (\<forall>i. 1 \<le> i \<and> i < k \<longrightarrow> (optimalStep ri ! i = 0) = (dt = 0))"
  have "\<exists>ri' k'. ?I ri' k' \<and> k' < sequence_length \<and> loop_iteration ri' t dt k' = Inr (Inl ex)"
  proof (rule bs_loop_exit_ex[where I = ?I])
    show "?I ri0 0" using T len by simp
    show "bs_loop ri0 t dt 0 = Inr ex" by fact
    fix ri k ri'
    assume i: "?I ri k" and k: "k < sequence_length"
      and l: "loop_iteration ri t dt k = Inr (Inr ri')"
    from i have i1: "targetIter ri = targetIter ri0" "int k \<le> targetIter ri0 + 1"
      and i2: "length (optimalStep ri) = sequence_length"
      and i3: "\<And>i. 1 \<le> i \<Longrightarrow> i < k \<Longrightarrow> (optimalStep ri ! i = 0) = (dt = 0)"
      by blast+
    note s = loop_iteration_continue_steps[OF l]
    have "(optimalStep ri' ! i = 0) = (dt = 0)" if "1 \<le> i" "i < Suc k" for i
    proof (cases "i = k")
      case True
      then show ?thesis using s(3) that(1) k i2 by simp
    next
      case False
      then have "i < k" using that by simp
      from i3[OF that(1) this] s(2)[OF False] show ?thesis by simp
    qed
    moreover have "length (optimalStep ri') = sequence_length" using s(1) i2 by simp
    moreover note target_invariant_step[OF T(1) i1 l]
    ultimately show "?I ri' (Suc k)" by simp
  qed
  then obtain ri' k' where i1: "targetIter ri' = targetIter ri0" "int k' \<le> targetIter ri0 + 1"
    and i2: "length (optimalStep ri') = sequence_length"
    and i3: "\<And>i. 1 \<le> i \<Longrightarrow> i < k' \<Longrightarrow> (optimalStep ri' ! i = 0) = (dt = 0)"
    and k: "k' < sequence_length"
    and l: "loop_iteration ri' t dt k' = Inr (Inl ex)" by blast
  have T': "1 \<le> targetIter ri'" "targetIter ri' \<le> 7" using T i1 by simp_all
  have len': "k' < length (optimalStep ri')" using k i2 by simp
  show "(exit_dt ex = 0) = (dt = 0)" if r: "exit_reject ex"
    using loop_iteration_exit_reject(3)[OF l r T']
  proof
    assume "exit_dt ex = \<bar>dt * stabilityReduction\<bar>"
    then have "exit_dt ex = \<bar>dt * (1 / 2)\<bar>" by (simp add: stabilityReduction_def)
    then show ?thesis by (simp only: abs_eq_0 mult_eq_0_iff) simp
  next
    assume "\<exists>sts error. 0 < k' \<and> targetIter (exit_ri ex) \<le> int k'
           \<and> exit_dt ex = optimalStep (record_optimal_step (ri'\<lparr>states := sts\<rparr>) k' dt error)
                              ! nat (targetIter (exit_ri ex))"
    then obtain sts error where k0: "0 < k'" and le: "targetIter (exit_ri ex) \<le> int k'"
      and dt: "exit_dt ex = optimalStep (record_optimal_step (ri'\<lparr>states := sts\<rparr>) k' dt error)
                              ! nat (targetIter (exit_ri ex))" by blast
    have ge: "1 \<le> targetIter (exit_ri ex)"
      using loop_iteration_exit_reject(2)[OF l r T'] by simp
    have "1 \<le> nat (targetIter (exit_ri ex))" "nat (targetIter (exit_ri ex)) \<le> k'"
      using ge le by simp_all
    from record_optimal_step_entries[OF len' i3 this] show ?thesis by (simp add: dt)
  qed
  show "(optimalStep (exit_ri ex) ! i = 0) = (dt = 0)"
    if a: "\<not> exit_reject ex" and i: "1 \<le> i" "i \<le> exit_k ex"
  proof -
    from loop_iteration_exit_accept(6)[OF l a] obtain sts error
      where e: "exit_ri ex = record_optimal_step (ri'\<lparr>states := sts\<rparr>) k' dt error" by blast
    have "i \<le> k'" using i(2) loop_iteration_exit_accept(5)[OF l a] by simp
    from record_optimal_step_entries[OF len' i3 i(1) this] show ?thesis by (simp add: e)
  qed
qed

lemma optimal_iter_bounds:
  assumes "1 \<le> k" "k \<le> targetIter ri + 1" "1 \<le> targetIter ri" "targetIter ri \<le> 7"
  shows "\<exists>oi. optimal_iter ri k = Inr oi \<and> 1 \<le> oi \<and> oi \<le> 7 \<and> oi \<le> k + 1"
proof -
  consider (one) "k = 1" | (before) "k \<noteq> 1" "k \<le> targetIter ri"
    | (after) "k \<noteq> 1" "\<not> k \<le> targetIter ri" by blast
  then show ?thesis
  proof cases
    case one
    then show ?thesis by (simp add: optimal_iter_def)
  next
    case before
    then have "inb (k - 1)" "inb k" using assms by (simp_all add: inb_iff)
    then show ?thesis using before assms
      by (simp add: optimal_iter_def sequence_length_9)
  next
    case after
    then have "inb (k - 1)" "inb k" "inb (k - 2)" "2 < k \<or> k = 2"
      using assms by (auto simp: inb_iff)
    then show ?thesis using after assms
      by (auto simp: optimal_iter_def sequence_length_9 Let_def)
  qed
qed

lemma accept_update_result:
  assumes k: "1 \<le> kn" "int kn \<le> targetIter ri + 1"
      and T: "1 \<le> targetIter ri" "targetIter ri \<le> 7"
  shows "\<exists>ri' dt'. accept_update ri kn dt = Inr (ri', dt')
      \<and> 1 \<le> targetIter ri' \<and> targetIter ri' \<le> 7 \<and> bs_frame ri' = bs_frame ri
      \<and> ((\<exists>i. 1 \<le> i \<and> i \<le> kn
              \<and> (dt' = min \<bar>dt\<bar> (optimalStep ri ! i) \<or> dt' = optimalStep ri ! i))
         \<or> (\<exists>j. j < 9 \<and> dt' = optimalStep ri ! kn * real_of_int (costPerStep ri ! j)
                                  / real_of_int (costPerStep ri ! kn)))"
proof -
  define ri1 where "ri1 = ri\<lparr>states := map (\<lambda>s. s\<lparr>ode_y := ode_y1 s, ode_y1 := ode_y s\<rparr>) (states ri)\<rparr>"
  have f: "targetIter ri1 = targetIter ri" "previousRejected ri1 = previousRejected ri"
    "optimalStep ri1 = optimalStep ri" "costPerStep ri1 = costPerStep ri"
    "costPerTimeUnit ri1 = costPerTimeUnit ri" "bs_frame ri1 = bs_frame ri"
    by (simp_all add: ri1_def)
  have "\<exists>oi. optimal_iter ri1 (int kn) = Inr oi \<and> 1 \<le> oi \<and> oi \<le> 7 \<and> oi \<le> int kn + 1"
    by (rule optimal_iter_bounds) (use k T f in simp_all)
  then obtain oi where o: "optimal_iter ri1 (int kn) = Inr oi"
    and b: "1 \<le> oi" "oi \<le> 7" "oi \<le> int kn + 1" by blast
  have u: "accept_update ri kn dt =
      (if previousRejected ri \<noteq> 0 then
              (let ti = min oi (int kn)
               in if \<not> inb ti then Inl SequenceIndexOutOfBounds
                  else Inr (ri1\<lparr>targetIter := ti\<rparr>, min \<bar>dt\<bar> (optimalStep ri ! nat ti)))
            else if oi \<le> int kn then
              (if \<not> inb oi then Inl SequenceIndexOutOfBounds
               else Inr (ri1\<lparr>targetIter := oi\<rparr>, optimalStep ri ! nat oi))
            else if \<not> inb (int kn) then Inl SequenceIndexOutOfBounds
            else if int kn < targetIter ri \<and> \<not> inb (int kn - 1) then Inl SequenceIndexOutOfBounds
            else if int kn < targetIter ri
                    \<and> costPerTimeUnit ri ! kn
                        < orderControl2 * costPerTimeUnit ri ! nat (int kn - 1) then
              (if \<not> inb (oi + 1) then Inl SequenceIndexOutOfBounds
               else Inr (ri1\<lparr>targetIter := oi\<rparr>,
                         optimalStep ri ! kn * real_of_int (costPerStep ri ! nat (oi + 1))
                           / real_of_int (costPerStep ri ! kn)))
            else
              (if \<not> inb oi then Inl SequenceIndexOutOfBounds
               else Inr (ri1\<lparr>targetIter := oi\<rparr>,
                         optimalStep ri ! kn * real_of_int (costPerStep ri ! nat oi)
                           / real_of_int (costPerStep ri ! kn))))"
    unfolding accept_update_def Let_def ri1_def[symmetric] o f by simp
  have i: "inb oi" "inb (oi + 1)" "inb (int kn)" "inb (int kn - 1)" "inb (min oi (int kn))"
    using b k T by (simp_all add: inb_iff)
  consider (a) "previousRejected ri \<noteq> 0"
    | (b) "previousRejected ri = 0" "oi \<le> int kn"
    | (c) "previousRejected ri = 0" "\<not> oi \<le> int kn" "int kn < targetIter ri
                    \<and> costPerTimeUnit ri ! kn
                        < orderControl2 * costPerTimeUnit ri ! nat (int kn - 1)"
    | (d) "previousRejected ri = 0" "\<not> oi \<le> int kn" "\<not> (int kn < targetIter ri
                    \<and> costPerTimeUnit ri ! kn
                        < orderControl2 * costPerTimeUnit ri ! nat (int kn - 1))"
    by blast
  then show ?thesis
  proof cases
    case a
    have e: "accept_update ri kn dt
        = Inr (ri1\<lparr>targetIter := min oi (int kn)\<rparr>,
               min \<bar>dt\<bar> (optimalStep ri ! nat (min oi (int kn))))"
      unfolding u using a i by (simp add: Let_def)
    have "1 \<le> nat (min oi (int kn))" "nat (min oi (int kn)) \<le> kn"
      "1 \<le> min oi (int kn)" "min oi (int kn) \<le> 7"
      using b k by simp_all
    then show ?thesis unfolding e using f(6) by auto
  next
    case b
    have e: "accept_update ri kn dt = Inr (ri1\<lparr>targetIter := oi\<rparr>, optimalStep ri ! nat oi)"
      unfolding u using b i by simp
    have "1 \<le> nat oi" "nat oi \<le> kn" using \<open>1 \<le> oi\<close> b(2) by simp_all
    then show ?thesis unfolding e using f(6) \<open>1 \<le> oi\<close> \<open>oi \<le> 7\<close> by auto
  next
    case c
    have e: "accept_update ri kn dt
        = Inr (ri1\<lparr>targetIter := oi\<rparr>,
               optimalStep ri ! kn * real_of_int (costPerStep ri ! nat (oi + 1))
                           / real_of_int (costPerStep ri ! kn))"
      unfolding u using c i by simp
    have "nat (oi + 1) < 9" using \<open>oi \<le> 7\<close> by simp
    then show ?thesis unfolding e using f(6) \<open>1 \<le> oi\<close> \<open>oi \<le> 7\<close> by auto
  next
    case d
    have e: "accept_update ri kn dt
        = Inr (ri1\<lparr>targetIter := oi\<rparr>,
               optimalStep ri ! kn * real_of_int (costPerStep ri ! nat oi)
                           / real_of_int (costPerStep ri ! kn))"
      unfolding u by (simp only: d i if_False if_True simp_thms)
    have "nat oi < 9" using \<open>oi \<le> 7\<close> by simp
    then show ?thesis unfolding e using f(6) \<open>1 \<le> oi\<close> \<open>oi \<le> 7\<close> by auto
  qed
qed

lemma select_order_target:
  assumes "targetIter ri = 0 \<or> (1 \<le> targetIter ri \<and> targetIter ri \<le> int sequence_length - 2)"
  shows "1 \<le> targetIter (select_order ri)" "targetIter (select_order ri) \<le> 7"
  using assms by (auto simp: select_order_def Let_def sequence_length_9)

lemma accept_update_frame:
  assumes "accept_update ri kn dt = Inr (ri', dt')"
  shows "bs_frame ri' = bs_frame ri"
proof -
  define ri1 where "ri1 = ri\<lparr>states := map (\<lambda>s. s\<lparr>ode_y := ode_y1 s, ode_y1 := ode_y s\<rparr>) (states ri)\<rparr>"
  have "\<exists>ti. ri' = ri1\<lparr>targetIter := ti\<rparr>"
    using assms unfolding accept_update_def Let_def ri1_def[symmetric]
    by (cases "optimal_iter ri1 (int kn)") (auto split: if_splits)
  then show ?thesis by (auto simp: ri1_def)
qed

text \<open>The step up to the bounds on \<^verbatim>\<open>dt\<close>, for a target column in range.\<close>

lemma step_core_in_range:
  assumes T: "1 \<le> targetIter (select_order ri)" "targetIter (select_order ri) \<le> 7"
  shows "step_core ri t dt \<noteq> Inl SequenceIndexOutOfBounds"
    "step_core ri t dt = Inr ex \<Longrightarrow>
       1 \<le> targetIter (exit_ri ex) \<and> targetIter (exit_ri ex) \<le> 7"
proof -
  let ?ri0 = "prepare_step ri t"
  have T0: "1 \<le> targetIter ?ri0" "targetIter ?ri0 \<le> 7"
    using T by (simp_all add: prepare_step_keeps)
  have acc: "\<exists>ri' dt'. accept_update (exit_ri ex0) (exit_k ex0) (exit_dt ex0) = Inr (ri', dt')
      \<and> 1 \<le> targetIter ri' \<and> targetIter ri' \<le> 7"
    if l: "bs_loop ?ri0 t dt 0 = Inr ex0" and a: "\<not> exit_reject ex0" for ex0
  proof -
    have k: "1 \<le> exit_k ex0" using bs_loop_exit_accept(3)[OF l a] by simp
    have t: "targetIter (exit_ri ex0) = targetIter ?ri0"
      by (rule bs_loop_exit_target(4)[OF T0 l a])
    have k': "int (exit_k ex0) \<le> targetIter (exit_ri ex0) + 1"
      using bs_loop_exit_target(1)[OF T0 l] t by simp
    have T1: "1 \<le> targetIter (exit_ri ex0)" "targetIter (exit_ri ex0) \<le> 7"
      using T0 t by simp_all
    from accept_update_result[OF k k' T1, of "exit_dt ex0"] show ?thesis by blast
  qed
  show "step_core ri t dt \<noteq> Inl SequenceIndexOutOfBounds"
  proof (cases "bs_loop ?ri0 t dt 0")
    case (Inl e)
    then have "e \<noteq> SequenceIndexOutOfBounds"
      using bs_loop_no_index_error[OF T0, of t dt] by auto
    then show ?thesis using Inl by (simp add: step_core_def)
  next
    case (Inr ex0)
    show ?thesis
    proof (cases "exit_reject ex0")
      case True
      then show ?thesis using Inr by (simp add: step_core_def)
    next
      case False
      from acc[OF Inr False] show ?thesis using Inr False by (auto simp: step_core_def)
    qed
  qed
  show "1 \<le> targetIter (exit_ri ex) \<and> targetIter (exit_ri ex) \<le> 7"
    if c: "step_core ri t dt = Inr ex"
  proof (cases "exit_reject ex")
    case True
    note l = step_core_reject[OF c True]
    from bs_loop_exit_target(2,3)[OF T0 l] show ?thesis by simp
  next
    case False
    from step_core_accept[OF c False] obtain ex0 ri' dt'
      where l: "bs_loop ?ri0 t dt 0 = Inr ex0" and a: "\<not> exit_reject ex0"
        and u: "accept_update (exit_ri ex0) (exit_k ex0) (exit_dt ex0) = Inr (ri', dt')"
        and e: "ex = ex0\<lparr>exit_ri := ri', exit_dt := dt'\<rparr>" by blast
    from acc[OF l a] u show ?thesis by (simp add: e)
  qed
qed


text \<open>
  Claim C9. Let the target column be in range at entry, \<open>1 \<le> targetIter \<le> sequence_length - 2\<close>,
  or 0, in which case the initial order selection puts it in this range. Then no index
  that the step uses is outside the sequence arrays (the step never ends in
  \<open>SequenceIndexOutOfBounds\<close>, the error that guards every access to \<^verbatim>\<open>sequence\<close>,
  \<^verbatim>\<open>costPerStep\<close>, \<^verbatim>\<open>costPerTimeUnit\<close>, \<^verbatim>\<open>optimalStep\<close> and the rows of \<^verbatim>\<open>D\<close>), the loop
  over the columns ends with \<open>k \<le> targetIter + 1 \<le> sequence_length - 1\<close> for the target
  column of the entry, and the target column that the step leaves is again in
  \<open>1 .. sequence_length - 2\<close>.
\<close>

theorem bs_step_indices_in_bounds:
  assumes "targetIter ri = 0 \<or> (1 \<le> targetIter ri \<and> targetIter ri \<le> int sequence_length - 2)"
  shows "1 \<le> targetIter (select_order ri)
       \<and> targetIter (select_order ri) \<le> int sequence_length - 2
       \<and> bs_loop (prepare_step ri t) t dt 0 \<noteq> Inl SequenceIndexOutOfBounds
       \<and> (\<forall>ex. bs_loop (prepare_step ri t) t dt 0 = Inr ex \<longrightarrow>
             int (exit_k ex) \<le> targetIter (select_order ri) + 1
           \<and> int (exit_k ex) \<le> int sequence_length - 1)
       \<and> reb_integrator_bs_step ri t dt \<noteq> Inl SequenceIndexOutOfBounds
       \<and> (\<forall>r ri'. reb_integrator_bs_step ri t dt = Inr (r, ri') \<longrightarrow>
             1 \<le> targetIter ri' \<and> targetIter ri' \<le> int sequence_length - 2)"
proof -
  note T = select_order_target[OF assms]
  let ?ri0 = "prepare_step ri t"
  have T0: "1 \<le> targetIter ?ri0" "targetIter ?ri0 \<le> 7"
    using T by (simp_all add: prepare_step_keeps)
  have a: "bs_loop ?ri0 t dt 0 \<noteq> Inl SequenceIndexOutOfBounds"
    by (rule bs_loop_no_index_error[OF T0])
  have b: "int (exit_k ex) \<le> targetIter (select_order ri) + 1
           \<and> int (exit_k ex) \<le> int sequence_length - 1"
    if "bs_loop ?ri0 t dt 0 = Inr ex" for ex
    using bs_loop_exit_target(1)[OF T0 that] T
    by (simp add: prepare_step_keeps sequence_length_9)
  have c: "reb_integrator_bs_step ri t dt \<noteq> Inl SequenceIndexOutOfBounds"
  proof (cases "step_core ri t dt")
    case (Inl e)
    then have "e \<noteq> SequenceIndexOutOfBounds" using step_core_in_range(1)[OF T, of t dt] by auto
    then show ?thesis using bs_step_core_error[OF Inl] by simp
  next
    case (Inr ex)
    show ?thesis unfolding bs_step_of_core[OF Inr] by simp
  qed
  have d: "1 \<le> targetIter ri' \<and> targetIter ri' \<le> int sequence_length - 2"
    if s: "reb_integrator_bs_step ri t dt = Inr (r, ri')" for r ri'
  proof (rule bs_step_result[OF s])
    fix ex
    assume core: "step_core ri t dt = Inr ex"
      and rej: "exit_reject ex \<Longrightarrow> r = 0 \<and> ri' = (exit_ri ex)\<lparr>dt_proposed := if \<not> dt \<ge> 0 then - \<bar>exit_dt ex\<bar> else \<bar>exit_dt ex\<bar>,
                                  previousRejected := 1\<rparr>"
      and acc: "\<not> exit_reject ex \<Longrightarrow> r = 1 \<and> ri' = (exit_ri ex)\<lparr>dt_proposed := if \<not> dt \<ge> 0 then - \<bar>exit_dt ex\<bar> else \<bar>exit_dt ex\<bar>,
                                  previousRejected := 0, firstOrLastStep := 0\<rparr>"
    have "targetIter ri' = targetIter (exit_ri ex)"
    proof (cases "exit_reject ex")
      case True
      from rej[OF True] show ?thesis by simp
    next
      case False
      from acc[OF False] show ?thesis by simp
    qed
    then show ?thesis
      using step_core_in_range(2)[OF T core] by (simp add: sequence_length_9)
  qed
  from T a b c d show ?thesis by (simp add: sequence_length_9)
qed


section \<open>BS: the step-control invariants\<close>

lemma arrays_ok_cost:
  assumes "arrays_ok ri" "j < 9"
  shows "0 < costPerStep ri ! j"
  using assms by (simp add: arrays_ok_def sequence_length_9 list_all_length)

lemma step_core_dt_zero:
  assumes ok: "arrays_ok ri"
      and T: "1 \<le> targetIter (select_order ri)" "targetIter (select_order ri) \<le> 7"
      and c: "step_core ri t dt = Inr ex"
  shows "(exit_dt ex = 0) = (dt = 0)"
proof -
  let ?ri0 = "prepare_step ri t"
  have T0: "1 \<le> targetIter ?ri0" "targetIter ?ri0 \<le> 7"
    using T by (simp_all add: prepare_step_keeps)
  have len: "length (optimalStep ?ri0) = sequence_length"
    using ok by (simp add: prepare_step_keeps arrays_ok_def)
  show ?thesis
  proof (cases "exit_reject ex")
    case True
    note l = step_core_reject[OF c True]
    from bs_loop_exit_steps(1)[OF T0 len l True] show ?thesis .
  next
    case False
    from step_core_accept[OF c False] obtain ex0 ri' dt'
      where l: "bs_loop ?ri0 t dt 0 = Inr ex0" and a: "\<not> exit_reject ex0"
        and u: "accept_update (exit_ri ex0) (exit_k ex0) (exit_dt ex0) = Inr (ri', dt')"
        and e: "ex = ex0\<lparr>exit_ri := ri', exit_dt := dt'\<rparr>" by blast
    have k: "1 \<le> exit_k ex0" using bs_loop_exit_accept(3)[OF l a] by simp
    have d: "exit_dt ex0 = dt" by (rule bs_loop_exit_accept(1)[OF l a])
    have t: "targetIter (exit_ri ex0) = targetIter ?ri0"
      by (rule bs_loop_exit_target(4)[OF T0 l a])
    have k': "int (exit_k ex0) \<le> targetIter (exit_ri ex0) + 1"
      using bs_loop_exit_target(1)[OF T0 l] t by simp
    have T1: "1 \<le> targetIter (exit_ri ex0)" "targetIter (exit_ri ex0) \<le> 7"
      using T0 t by simp_all
    have k9: "exit_k ex0 < 9" using k' T1 by simp
    note q = bs_loop_exit_steps(2)[OF T0 len l a]
    have cost: "costPerStep (exit_ri ex0) = costPerStep ri"
      using bs_loop_frame[OF l] by (simp add: bs_frame_def prepare_step_keeps)
    have pos: "0 < costPerStep (exit_ri ex0) ! j" if "j < 9" for j
      unfolding cost by (rule arrays_ok_cost[OF ok that])
    from accept_update_result[OF k k' T1, of dt] u d
    have "(\<exists>i. 1 \<le> i \<and> i \<le> exit_k ex0
              \<and> (dt' = min \<bar>dt\<bar> (optimalStep (exit_ri ex0) ! i)
                  \<or> dt' = optimalStep (exit_ri ex0) ! i))
         \<or> (\<exists>j. j < 9 \<and> dt' = optimalStep (exit_ri ex0) ! exit_k ex0
                                   * real_of_int (costPerStep (exit_ri ex0) ! j)
                                  / real_of_int (costPerStep (exit_ri ex0) ! exit_k ex0))"
      by simp
    then have "(dt' = 0) = (dt = 0)"
    proof
      assume "\<exists>i. 1 \<le> i \<and> i \<le> exit_k ex0
              \<and> (dt' = min \<bar>dt\<bar> (optimalStep (exit_ri ex0) ! i)
                  \<or> dt' = optimalStep (exit_ri ex0) ! i)"
      then obtain i where i: "1 \<le> i" "i \<le> exit_k ex0"
        and v: "dt' = min \<bar>dt\<bar> (optimalStep (exit_ri ex0) ! i)
                  \<or> dt' = optimalStep (exit_ri ex0) ! i" by blast
      note z = q[OF i]
      from v show ?thesis
      proof
        assume "dt' = optimalStep (exit_ri ex0) ! i"
        then show ?thesis using z by simp
      next
        assume m: "dt' = min \<bar>dt\<bar> (optimalStep (exit_ri ex0) ! i)"
        show ?thesis
        proof (cases "dt = 0")
          case True
          then show ?thesis using z m by simp
        next
          case False
          then have "\<bar>dt\<bar> \<noteq> 0" "optimalStep (exit_ri ex0) ! i \<noteq> 0" using z by simp_all
          then have "dt' \<noteq> 0" unfolding m min_def by simp
          then show ?thesis using False by simp
        qed
      qed
    next
      assume "\<exists>j. j < 9 \<and> dt' = optimalStep (exit_ri ex0) ! exit_k ex0
                                   * real_of_int (costPerStep (exit_ri ex0) ! j)
                                  / real_of_int (costPerStep (exit_ri ex0) ! exit_k ex0)"
      then obtain j where j: "j < 9"
        and v: "dt' = optimalStep (exit_ri ex0) ! exit_k ex0
                                   * real_of_int (costPerStep (exit_ri ex0) ! j)
                                  / real_of_int (costPerStep (exit_ri ex0) ! exit_k ex0)" by blast
      have z: "(optimalStep (exit_ri ex0) ! exit_k ex0 = 0) = (dt = 0)"
        by (rule q) (use k in simp_all)
      have "costPerStep (exit_ri ex0) ! j \<noteq> 0" "costPerStep (exit_ri ex0) ! exit_k ex0 \<noteq> 0"
        using pos[OF j] pos[OF k9] by simp_all
      then show ?thesis unfolding v using z by simp
    qed
    then show ?thesis by (simp add: e)
  qed
qed

lemma step_core_frame:
  assumes c: "step_core ri t dt = Inr ex"
  shows "bs_frame (exit_ri ex) = bs_frame ri"
proof (cases "exit_reject ex")
  case True
  from bs_loop_frame[OF step_core_reject[OF c True]] show ?thesis
    by (simp add: prepare_step_keeps)
next
  case False
  from step_core_accept[OF c False] obtain ex0 ri' dt'
    where l: "bs_loop (prepare_step ri t) t dt 0 = Inr ex0"
      and u: "accept_update (exit_ri ex0) (exit_k ex0) (exit_dt ex0) = Inr (ri', dt')"
      and e: "ex = ex0\<lparr>exit_ri := ri', exit_dt := dt'\<rparr>" by blast
  from accept_update_frame[OF u] bs_loop_frame[OF l] show ?thesis
    by (simp add: e prepare_step_keeps)
qed

text \<open>
  Claim C2. Whenever the step returns: \<^verbatim>\<open>minStep\<close> and \<^verbatim>\<open>maxStep\<close> are those of the entry,
  \<open>minStep \<le> |dt_proposed|\<close>, and \<open>|dt_proposed| \<le> maxStep\<close> if \<open>maxStep > 0\<close>; the proposed
  step is not negative for a forward step and not positive for a backward one, and for
  an integrator with allocated sequence arrays and a target column in range it has
  exactly the sign of \<open>dt\<close>; the return value is 0 or 1, and if it is 1 then the loop was
  left without rejection and with its last error estimate at most 1.
\<close>

theorem bs_step_control_invariants:
  assumes s: "reb_integrator_bs_step ri t dt = Inr (r, ri')"
  shows "minStep ri' = minStep ri \<and> maxStep ri' = maxStep ri
       \<and> minStep ri' \<le> \<bar>dt_proposed ri'\<bar>
       \<and> (0 < maxStep ri' \<longrightarrow> \<bar>dt_proposed ri'\<bar> \<le> maxStep ri')
       \<and> (0 \<le> dt \<longrightarrow> 0 \<le> dt_proposed ri') \<and> (dt < 0 \<longrightarrow> dt_proposed ri' \<le> 0)
       \<and> (arrays_ok ri
            \<and> (targetIter ri = 0
                \<or> (1 \<le> targetIter ri \<and> targetIter ri \<le> int sequence_length - 2))
           \<longrightarrow> sgn (dt_proposed ri') = sgn dt)
       \<and> (r = 0 \<or> r = 1)
       \<and> (r = 1 \<longrightarrow>
            (\<exists>ex error. bs_loop (prepare_step ri t) t dt 0 = Inr ex \<and> \<not> exit_reject ex
                \<and> exit_error ex = Some error \<and> error \<le> 1))"
proof (rule bs_step_result[OF s])
  fix ex
  assume core: "step_core ri t dt = Inr ex"
    and lo: "minStep (exit_ri ex) \<le> \<bar>exit_dt ex\<bar>"
    and hi: "maxStep (exit_ri ex) > 0 \<Longrightarrow> \<bar>exit_dt ex\<bar> \<le> maxStep (exit_ri ex)"
    and rej: "exit_reject ex \<Longrightarrow> r = 0 \<and> ri' = (exit_ri ex)\<lparr>dt_proposed := if \<not> dt \<ge> 0 then - \<bar>exit_dt ex\<bar> else \<bar>exit_dt ex\<bar>,
                                  previousRejected := 1\<rparr>"
    and acc: "\<not> exit_reject ex \<Longrightarrow> r = 1 \<and> ri' = (exit_ri ex)\<lparr>dt_proposed := if \<not> dt \<ge> 0 then - \<bar>exit_dt ex\<bar> else \<bar>exit_dt ex\<bar>,
                                  previousRejected := 0, firstOrLastStep := 0\<rparr>"
  have f: "minStep ri' = minStep (exit_ri ex)" "maxStep ri' = maxStep (exit_ri ex)"
    "dt_proposed ri' = (if \<not> dt \<ge> 0 then - \<bar>exit_dt ex\<bar> else \<bar>exit_dt ex\<bar>)"
  proof -
    have "ri' = (exit_ri ex)\<lparr>dt_proposed := if \<not> dt \<ge> 0 then - \<bar>exit_dt ex\<bar> else \<bar>exit_dt ex\<bar>,
                                  previousRejected := 1\<rparr>
        \<or> ri' = (exit_ri ex)\<lparr>dt_proposed := if \<not> dt \<ge> 0 then - \<bar>exit_dt ex\<bar> else \<bar>exit_dt ex\<bar>,
                                  previousRejected := 0, firstOrLastStep := 0\<rparr>"
      using rej acc by blast
    then show "minStep ri' = minStep (exit_ri ex)" "maxStep ri' = maxStep (exit_ri ex)"
      "dt_proposed ri' = (if \<not> dt \<ge> 0 then - \<bar>exit_dt ex\<bar> else \<bar>exit_dt ex\<bar>)"
      by auto
  qed
  have g: "minStep (exit_ri ex) = minStep ri" "maxStep (exit_ri ex) = maxStep ri"
    using step_core_frame[OF core] by (simp_all add: bs_frame_def)
  have a: "\<bar>dt_proposed ri'\<bar> = \<bar>exit_dt ex\<bar>" unfolding f(3) by simp
  have c1: "minStep ri' = minStep ri \<and> maxStep ri' = maxStep ri" using f g by simp
  have c2: "minStep ri' \<le> \<bar>dt_proposed ri'\<bar>" using lo f(1) a by simp
  have c3: "0 < maxStep ri' \<longrightarrow> \<bar>dt_proposed ri'\<bar> \<le> maxStep ri'" using hi f(2) a by simp
  have c4: "(0 \<le> dt \<longrightarrow> 0 \<le> dt_proposed ri') \<and> (dt < 0 \<longrightarrow> dt_proposed ri' \<le> 0)"
    unfolding f(3) by simp
  have c5: "arrays_ok ri
            \<and> (targetIter ri = 0
                \<or> (1 \<le> targetIter ri \<and> targetIter ri \<le> int sequence_length - 2))
           \<longrightarrow> sgn (dt_proposed ri') = sgn dt"
  proof (intro impI, elim conjE)
    assume ok: "arrays_ok ri"
      and T: "targetIter ri = 0
                \<or> (1 \<le> targetIter ri \<and> targetIter ri \<le> int sequence_length - 2)"
    note z = step_core_dt_zero[OF ok select_order_target[OF T] core]
    show "sgn (dt_proposed ri') = sgn dt"
    proof (cases "dt = 0")
      case True
      then show ?thesis using z f(3) by simp
    next
      case False
      then have "0 < \<bar>exit_dt ex\<bar>" using z by simp
      then show ?thesis using False unfolding f(3) by (simp add: sgn_if)
    qed
  qed
  have c6: "r = 0 \<or> r = 1" using rej acc by blast
  have c7: "r = 1 \<longrightarrow> (\<exists>ex error. bs_loop (prepare_step ri t) t dt 0 = Inr ex
                \<and> \<not> exit_reject ex \<and> exit_error ex = Some error \<and> error \<le> 1)"
  proof
    assume r1: "r = 1"
    have n: "\<not> exit_reject ex" using rej r1 by auto
    from step_core_accept[OF core n] obtain ex0
      where l: "bs_loop (prepare_step ri t) t dt 0 = Inr ex0" and a: "\<not> exit_reject ex0"
      by blast
    from bs_loop_exit_accept(2)[OF l a] l a
    show "\<exists>ex error. bs_loop (prepare_step ri t) t dt 0 = Inr ex
                \<and> \<not> exit_reject ex \<and> exit_error ex = Some error \<and> error \<le> 1" by blast
  qed
  show ?thesis
    by (intro conjI) (rule c1[THEN conjunct1] c1[THEN conjunct2] c2 c3 c4[THEN conjunct1]
        c4[THEN conjunct2] c5 c6 c7)+
qed

section \<open>BS: an accepted and a rejected step of the small integrator\<close>

lemma upt_6: "[Suc 0..<6] = [Suc 0, 2, 3, 4, 5]"
  by (simp add: upt_rec)

lemma prepare_step_example_zero:
  "prepare_step (bs_example (\<lambda>y t i. 0)) 0 =
     (bs_example (\<lambda>y t i. 0))
       \<lparr>states := [(ode_example (\<lambda>y t i. 0))\<lparr>ode_scale := [5]\<rparr>]\<rparr>"
  by (simp add: bs_example_record prepare_step_def select_order_def initial_scale_def
      reb_integrator_bs_default_scale_def ode_example_def Let_def)

lemma loop_iteration_example_zero_0:
  "loop_iteration (prepare_step (bs_example (\<lambda>y t i. 0)) 0) 0 1 0 =
     Inr (Inr ((bs_example (\<lambda>y t i. 0))
       \<lparr>states := [(ode_example (\<lambda>y t i. 0))
           \<lparr>ode_y1 := [3], ode_yTmp := [3], ode_C := [3], ode_scale := [5],
            ode_D := [[3], [2], [0], [0], [0], [0], [0], [0], [0]]\<rparr>]\<rparr>))"
  unfolding prepare_step_example_zero
  by (simp add: loop_iteration_def bs_example_record
      tryStep_def midpoint_first_def midpoint_body_def midpoint_last_def eval_derivatives_def
      unstable_def initialNorm_def deltaNorm_def ode_example_def Let_def upt_Suc0_2
      maxChecks_def maxIter_def seed_tableau_def)

lemma loop_iteration_example_zero_1:
  "\<exists>ex. loop_iteration ((bs_example (\<lambda>y t i. 0))
       \<lparr>states := [(ode_example (\<lambda>y t i. 0))
           \<lparr>ode_y1 := [3], ode_yTmp := [3], ode_C := [3], ode_scale := [5],
            ode_D := [[3], [2], [0], [0], [0], [0], [0], [0], [0]]\<rparr>]\<rparr>) 0 1 1 = Inr (Inl ex)
      \<and> \<not> exit_reject ex \<and> exit_k ex = 1 \<and> targetIter (exit_ri ex) = 1"
proof -
  have t: "tryStep [(ode_example (\<lambda>y t i. 0))
           \<lparr>ode_y1 := [3], ode_yTmp := [3], ode_C := [3], ode_scale := [5],
            ode_D := [[3], [2], [0], [0], [0], [0], [0], [0], [0]]\<rparr>] 1 6 0 1 1
       = Inr (1, [(ode_example (\<lambda>y t i. 0))
           \<lparr>ode_y1 := [3], ode_yTmp := [3], ode_C := [3], ode_scale := [5],
            ode_D := [[3], [2], [0], [0], [0], [0], [0], [0], [0]]\<rparr>])"
    by (simp add: tryStep_def midpoint_first_def midpoint_body_def midpoint_last_def
        eval_derivatives_def unstable_def initialNorm_def deltaNorm_def ode_example_def
        Let_def upt_6 maxChecks_def maxIter_def)
  have e: "extrapolate ((ode_example (\<lambda>y t i. 0))
           \<lparr>ode_y1 := [3], ode_yTmp := [3], ode_C := [3], ode_scale := [5],
            ode_D := [[3], [3], [0], [0], [0], [0], [0], [0], [0]]\<rparr>)
            [1 / 4, 1 / 36, 1 / 100, 1 / 196, 1 / 324, 1 / 484, 1 / 676, 1 / 900, 1 / 1156] 1
       = (ode_example (\<lambda>y t i. 0))
           \<lparr>ode_y1 := [3], ode_yTmp := [3], ode_C := [0], ode_scale := [5],
            ode_D := [[0], [3], [0], [0], [0], [0], [0], [0], [0]]\<rparr>"
    by (simp add: extrapolate_def extrapolate_sweep_def extrapolate_row_def extrapolate_sum_def
        ode_example_def Let_def upt_2)
  have s: "seed_tableau 1 [(ode_example (\<lambda>y t i. 0))
           \<lparr>ode_y1 := [3], ode_yTmp := [3], ode_C := [3], ode_scale := [5],
            ode_D := [[3], [2], [0], [0], [0], [0], [0], [0], [0]]\<rparr>]
       = [(ode_example (\<lambda>y t i. 0))
           \<lparr>ode_y1 := [3], ode_yTmp := [3], ode_C := [3], ode_scale := [5],
            ode_D := [[3], [3], [0], [0], [0], [0], [0], [0], [0]]\<rparr>]"
    by (simp add: seed_tableau_def ode_example_def)
  have r: "rescale ri ((ode_example (\<lambda>y t i. 0))
           \<lparr>ode_y1 := [3], ode_yTmp := [3], ode_C := [0], ode_scale := [5],
            ode_D := [[0], [3], [0], [0], [0], [0], [0], [0], [0]]\<rparr>)
       = (ode_example (\<lambda>y t i. 0))
           \<lparr>ode_y1 := [3], ode_yTmp := [3], ode_C := [0],
            ode_scale := [scalRelativeTolerance ri + scalAbsoluteTolerance ri * 3],
            ode_D := [[0], [3], [0], [0], [0], [0], [0], [0], [0]]\<rparr>" for ri
    by (simp add: rescale_def reb_integrator_bs_default_scale_def ode_example_def)
  have g: "error_estimate [(ode_example (\<lambda>y t i. 0))
           \<lparr>ode_y1 := [3], ode_yTmp := [3], ode_C := [0],
            ode_scale := [v],
            ode_D := [[0], [3], [0], [0], [0], [0], [0], [0], [0]]\<rparr>] = (1, 0)" for v
    by (simp add: error_estimate_def ode_example_def Let_def)
  have f: "states (bs_example rhs) = [ode_example rhs]" "sequence (bs_example rhs) ! 1 = 6"
    "method_bs (bs_example rhs) = 1" "targetIter (bs_example rhs) = 1"
    "coeff (bs_example rhs)
       = [1 / 4, 1 / 36, 1 / 100, 1 / 196, 1 / 324, 1 / 484, 1 / 676, 1 / 900, 1 / 1156]" for rhs
    by (simp_all add: bs_example_record)
  have f1: "sequence (bs_example rhs) ! Suc 0 = 6" for rhs
    using f(2)[of rhs] by simp
  have s1: "seed_tableau (Suc 0) [(ode_example (\<lambda>y t i. 0))
           \<lparr>ode_y1 := [3], ode_yTmp := [3], ode_C := [3], ode_scale := [5],
            ode_D := [[3], [2], [0], [0], [0], [0], [0], [0], [0]]\<rparr>]
       = [(ode_example (\<lambda>y t i. 0))
           \<lparr>ode_y1 := [3], ode_yTmp := [3], ode_C := [3], ode_scale := [5],
            ode_D := [[3], [3], [0], [0], [0], [0], [0], [0], [0]]\<rparr>]"
    using s by simp
  have e1: "extrapolate ((ode_example (\<lambda>y t i. 0))
           \<lparr>ode_y1 := [3], ode_yTmp := [3], ode_C := [3], ode_scale := [5],
            ode_D := [[3], [3], [0], [0], [0], [0], [0], [0], [0]]\<rparr>)
            [1 / 4, 1 / 36, 1 / 100, 1 / 196, 1 / 324, 1 / 484, 1 / 676, 1 / 900, 1 / 1156]
            (Suc 0)
       = (ode_example (\<lambda>y t i. 0))
           \<lparr>ode_y1 := [3], ode_yTmp := [3], ode_C := [0], ode_scale := [5],
            ode_D := [[0], [3], [0], [0], [0], [0], [0], [0], [0]]\<rparr>"
    using e by simp
  show ?thesis
    unfolding loop_iteration_def
    by (simp add: f f1 t s1 e1 r g Let_def check_convergence_def accept_exit_def)
qed

lemma accepted_step_example:
  "\<exists>ri'. reb_integrator_bs_step (bs_example (\<lambda>y t i. 0)) 0 1 = Inr (1, ri')"
proof -
  let ?ri = "prepare_step (bs_example (\<lambda>y t i. 0)) 0"
  obtain ex where l1: "loop_iteration ((bs_example (\<lambda>y t i. 0))
       \<lparr>states := [(ode_example (\<lambda>y t i. 0))
           \<lparr>ode_y1 := [3], ode_yTmp := [3], ode_C := [3], ode_scale := [5],
            ode_D := [[3], [2], [0], [0], [0], [0], [0], [0], [0]]\<rparr>]\<rparr>) 0 1 1 = Inr (Inl ex)"
    and a: "\<not> exit_reject ex" and k: "exit_k ex = 1" and ti: "targetIter (exit_ri ex) = 1"
    using loop_iteration_example_zero_1 by blast
  have l: "bs_loop ?ri 0 1 0 = Inr ex"
    using loop_iteration_example_zero_0 l1 by (simp add: sequence_length_9)
  have fr: "bs_frame (exit_ri ex) = bs_frame (bs_example (\<lambda>y t i. 0))"
    using bs_loop_frame[OF l] by (simp add: prepare_step_keeps)
  from accept_update_result[of "exit_k ex" "exit_ri ex" "exit_dt ex"] k ti
  obtain ri' dt' where u: "accept_update (exit_ri ex) (exit_k ex) (exit_dt ex) = Inr (ri', dt')"
    by auto
  have m: "minStep ri' = 0" "maxStep ri' = 0"
    using accept_update_frame[OF u] fr by (simp_all add: bs_frame_def bs_example_record)
  have "step_core (bs_example (\<lambda>y t i. 0)) 0 1 = Inr (ex\<lparr>exit_ri := ri', exit_dt := dt'\<rparr>)"
    using l a u by (simp add: step_core_def)
  from bs_step_of_core[OF this] show ?thesis
    using a by (simp add: m)
qed

lemma rejected_backward_step_example:
  "\<exists>ri'. reb_integrator_bs_step ((bs_example (\<lambda>y t i. 10 * y ! i))\<lparr>maxStep := 1\<rparr>) 0 (- 1)
      = Inr (0, ri')"
proof -
  let ?bs = "(bs_example (\<lambda>y t i. 10 * y ! i))\<lparr>maxStep := 1\<rparr>"
  let ?ri = "prepare_step ?bs 0"
  have p: "?ri = ?bs\<lparr>states := [(ode_example (\<lambda>y t i. 10 * y ! i))\<lparr>ode_scale := [5], ode_y0Dot := [30]\<rparr>]\<rparr>"
    by (simp add: bs_example_record prepare_step_def select_order_def initial_scale_def
      reb_integrator_bs_default_scale_def ode_example_def Let_def)
  have "\<exists>sts'. tryStep [(ode_example (\<lambda>y t i. 10 * y ! i))\<lparr>ode_scale := [5], ode_y0Dot := [30]\<rparr>]
             0 2 0 (- 1) 1 = Inr (0, sts')"
    by (simp add: tryStep_def midpoint_first_def midpoint_body_def eval_derivatives_def
      unstable_def initialNorm_def deltaNorm_def ode_example_def Let_def upt_Suc0_2
      maxChecks_def maxIter_def)
  then obtain sts' where
    t: "tryStep [(ode_example (\<lambda>y t i. 10 * y ! i))\<lparr>ode_scale := [5], ode_y0Dot := [30]\<rparr>]
          0 2 0 (- 1) 1 = Inr (0, sts')"
    by blast
  let ?ex = "\<lparr>exit_ri = ?ri\<lparr>states := sts'\<rparr>, exit_dt = \<bar>- 1 * stabilityReduction\<bar>,
               exit_reject = True, exit_k = 0, exit_error = None\<rparr>"
  have f: "states ?ri = [(ode_example (\<lambda>y t i. 10 * y ! i))\<lparr>ode_scale := [5], ode_y0Dot := [30]\<rparr>]"
    "sequence ?ri ! 0 = 2" "method_bs ?ri = 1" "minStep ?ri = 0" "maxStep ?ri = 1"
    unfolding p by (simp_all add: bs_example_record)
  have "loop_iteration ?ri 0 (- 1) 0 = Inr (Inl ?ex)"
    unfolding loop_iteration_def f by (simp add: t)
  then have "bs_loop ?ri 0 (- 1) 0 = Inr ?ex"
    by (simp add: sequence_length_9)
  then have "step_core ?bs 0 (- 1) = Inr ?ex"
    by (simp add: step_core_def)
  from bs_step_of_core[OF this] show ?thesis
    by (simp add: f stabilityReduction_def)
qed

lemma arrays_ok_example: "arrays_ok (bs_example rhs)" "arrays_ok ((bs_example rhs)\<lparr>maxStep := 1\<rparr>)"
  by (simp_all add: arrays_ok_def bs_example_record sequence_length_9)


lemma rejected_loop_example:
  "\<exists>ex. bs_loop (prepare_step (bs_example (\<lambda>y t i. 10 * y ! i)) 0) 0 1 0 = Inr ex"
proof (cases "bs_loop (prepare_step (bs_example (\<lambda>y t i. 10 * y ! i)) 0) 0 1 0")
  case (Inl e)
  then have "step_core (bs_example (\<lambda>y t i. 10 * y ! i)) 0 1 = Inl e"
    by (simp add: step_core_def)
  from bs_step_core_error[OF this] rejected_step_example show ?thesis by simp
next
  case (Inr ex)
  then show ?thesis by blast
qed

theorem bs_step_indices_in_bounds_witness:
  "targetIter (bs_example (\<lambda>y t i. 10 * y ! i)) = 1
   \<and> int sequence_length - 2 = 7
   \<and> reb_integrator_bs_step (bs_example (\<lambda>y t i. 10 * y ! i)) 0 1
        \<noteq> Inl SequenceIndexOutOfBounds
   \<and> (\<exists>ex. bs_loop (prepare_step (bs_example (\<lambda>y t i. 10 * y ! i)) 0) 0 1 0 = Inr ex
          \<and> int (exit_k ex) \<le> 2)
   \<and> (\<exists>ri'. reb_integrator_bs_step (bs_example (\<lambda>y t i. 10 * y ! i)) 0 1 = Inr (0, ri')
          \<and> 1 \<le> targetIter ri' \<and> targetIter ri' \<le> 7)"
proof -
  have t: "targetIter (bs_example (\<lambda>y t i. 10 * y ! i)) = 1"
    "select_order (bs_example (\<lambda>y t i. 10 * y ! i)) = bs_example (\<lambda>y t i. 10 * y ! i)"
    by (simp_all add: bs_example_record select_order_def)
  obtain ri' where s: "reb_integrator_bs_step (bs_example (\<lambda>y t i. 10 * y ! i)) 0 1 = Inr (0, ri')"
    using rejected_step_example by blast
  obtain ex where l: "bs_loop (prepare_step (bs_example (\<lambda>y t i. 10 * y ! i)) 0) 0 1 0 = Inr ex"
    using rejected_loop_example by blast
  from bs_step_indices_in_bounds[of "bs_example (\<lambda>y t i. 10 * y ! i)" 0 1] t s l
  show ?thesis by (simp add: sequence_length_9)
qed

theorem bs_step_control_invariants_witness:
  "(\<exists>ri'. reb_integrator_bs_step (bs_example (\<lambda>y t i. 0)) 0 1 = Inr (1, ri')
      \<and> arrays_ok (bs_example (\<lambda>y t i. 0)) \<and> targetIter (bs_example (\<lambda>y t i. 0)) = 1
      \<and> minStep ri' = 0 \<and> maxStep ri' = 0 \<and> 0 \<le> \<bar>dt_proposed ri'\<bar>
      \<and> 0 \<le> dt_proposed ri' \<and> sgn (dt_proposed ri') = 1
      \<and> (\<exists>ex error. bs_loop (prepare_step (bs_example (\<lambda>y t i. 0)) 0) 0 1 0 = Inr ex
            \<and> \<not> exit_reject ex \<and> exit_error ex = Some error \<and> error \<le> 1))
   \<and> (\<exists>ri'. reb_integrator_bs_step ((bs_example (\<lambda>y t i. 10 * y ! i))\<lparr>maxStep := 1\<rparr>) 0 (- 1)
              = Inr (0, ri')
      \<and> arrays_ok ((bs_example (\<lambda>y t i. 10 * y ! i))\<lparr>maxStep := 1\<rparr>)
      \<and> targetIter ((bs_example (\<lambda>y t i. 10 * y ! i))\<lparr>maxStep := 1\<rparr>) = 1
      \<and> minStep ri' = 0 \<and> maxStep ri' = 1 \<and> 0 \<le> \<bar>dt_proposed ri'\<bar>
      \<and> \<bar>dt_proposed ri'\<bar> \<le> 1
      \<and> dt_proposed ri' \<le> 0 \<and> sgn (dt_proposed ri') = - 1)"
proof -
  obtain ri1 where s1: "reb_integrator_bs_step (bs_example (\<lambda>y t i. 0)) 0 1 = Inr (1, ri1)"
    using accepted_step_example by blast
  obtain ri2 where s2: "reb_integrator_bs_step
      ((bs_example (\<lambda>y t i. 10 * y ! i))\<lparr>maxStep := 1\<rparr>) 0 (- 1) = Inr (0, ri2)"
    using rejected_backward_step_example by blast
  have t: "targetIter (bs_example rhs) = 1" "targetIter ((bs_example rhs)\<lparr>maxStep := 1\<rparr>) = 1"
    "minStep (bs_example rhs) = 0" "maxStep (bs_example rhs) = 0" for rhs
    by (simp_all add: bs_example_record)
  have a: "\<exists>ri'. reb_integrator_bs_step (bs_example (\<lambda>y t i. 0)) 0 1 = Inr (1, ri')
      \<and> arrays_ok (bs_example (\<lambda>y t i. 0)) \<and> targetIter (bs_example (\<lambda>y t i. 0)) = 1
      \<and> minStep ri' = 0 \<and> maxStep ri' = 0 \<and> 0 \<le> \<bar>dt_proposed ri'\<bar>
      \<and> 0 \<le> dt_proposed ri' \<and> sgn (dt_proposed ri') = 1
      \<and> (\<exists>ex error. bs_loop (prepare_step (bs_example (\<lambda>y t i. 0)) 0) 0 1 0 = Inr ex
            \<and> \<not> exit_reject ex \<and> exit_error ex = Some error \<and> error \<le> 1)"
    using bs_step_control_invariants[OF s1] s1 arrays_ok_example(1)[of "\<lambda>y t i. 0"]
    by (simp add: t sequence_length_9)
  have b: "\<exists>ri'. reb_integrator_bs_step ((bs_example (\<lambda>y t i. 10 * y ! i))\<lparr>maxStep := 1\<rparr>) 0 (- 1)
              = Inr (0, ri')
      \<and> arrays_ok ((bs_example (\<lambda>y t i. 10 * y ! i))\<lparr>maxStep := 1\<rparr>)
      \<and> targetIter ((bs_example (\<lambda>y t i. 10 * y ! i))\<lparr>maxStep := 1\<rparr>) = 1
      \<and> minStep ri' = 0 \<and> maxStep ri' = 1 \<and> 0 \<le> \<bar>dt_proposed ri'\<bar>
      \<and> \<bar>dt_proposed ri'\<bar> \<le> 1
      \<and> dt_proposed ri' \<le> 0 \<and> sgn (dt_proposed ri') = - 1"
    using bs_step_control_invariants[OF s2] s2 arrays_ok_example(2)[of "\<lambda>y t i. 10 * y ! i"]
    by (auto simp: t sequence_length_9)
  from a b show ?thesis by (rule conjI)
qed

end
